theory Spec2Isabelle
  imports Complex_Main "HOL-Library.AList" "HOL-Library.Log_Nat"
begin

section \<open>Takitaro: layered SVG export with draw-on stroke animation\<close>

text \<open>
  A shallow embedding of \<^verbatim>\<open>takitaro.py\<close>. The extension object's mutable fields
  become a \<open>state\<close> record that every method takes and returns; a raised exception is the
  \<open>Inl\<close> branch of a sum. Python floats are binary64 numbers and every operation on them
  rounds; a Python number remembers whether it is an \<open>int\<close> or a \<open>float\<close>, because the
  two compute and print differently.
\<close>

subsection \<open>Python numbers\<close>

datatype py_error = ZeroDivisionError | ValueError | AttributeError | KeyError | IndexError

text \<open>
  A Python number is an \<open>int\<close> or a \<open>float\<close>. A float is an IEEE 754 binary64 number,
  held as the rational it denotes.
\<close>

datatype pynum = PyInt int | PyFloat rat

fun num_val :: "pynum \<Rightarrow> rat" where
  "num_val (PyInt i) = of_int i"
| "num_val (PyFloat r) = r"

text \<open>To the nearest integer, ties to the even one.\<close>

definition round_half_even :: "rat \<Rightarrow> int" where
  "round_half_even x =
     (let f = \<lfloor>x\<rfloor>; d = x - of_int f
      in if d < 1 / 2 then f
         else if 1 / 2 < d then f + 1
         else if even f then f else f + 1)"

definition pow2 :: "int \<Rightarrow> rat" where
  "pow2 k = (if 0 \<le> k then 2 ^ nat k else 1 / 2 ^ nat (- k))"

text \<open>The binary exponent of \<open>x \<noteq> 0\<close>: the \<open>k\<close> with \<open>2\<^sup>k \<le> |x| < 2\<^sup>k\<^sup>+\<^sup>1\<close>.\<close>

definition expo :: "rat \<Rightarrow> int" where
  "expo x = (if 1 \<le> \<bar>x\<bar> then bitlen \<lfloor>\<bar>x\<bar>\<rfloor> - 1 else - bitlen (\<lceil>1 / \<bar>x\<bar>\<rceil> - 1))"

text \<open>
  The rounding of every float operation: the exact result goes to the nearest number
  with a significand of 53 bits, ties to the even significand. The exponent is not
  bounded here: overflow to \<open>inf\<close> and the coarser subnormal numbers are outside the model.
\<close>

definition fl :: "rat \<Rightarrow> rat" where
  "fl x = (if x = 0 then 0
           else of_int (round_half_even (x / pow2 (expo x - 52))) * pow2 (expo x - 52))"

text \<open>An \<open>int\<close> operand of a float operation is converted to a float first.\<close>

fun to_float :: "pynum \<Rightarrow> rat" where
  "to_float (PyInt i) = fl (of_int i)"
| "to_float (PyFloat r) = r"

text \<open>\<open>a + b\<close> and \<open>a * b\<close>: an \<open>int\<close> only when both operands are.\<close>

fun py_add :: "pynum \<Rightarrow> pynum \<Rightarrow> pynum" where
  "py_add (PyInt a) (PyInt b) = PyInt (a + b)"
| "py_add a b = PyFloat (fl (to_float a + to_float b))"

fun py_mul :: "pynum \<Rightarrow> pynum \<Rightarrow> pynum" where
  "py_mul (PyInt a) (PyInt b) = PyInt (a * b)"
| "py_mul a b = PyFloat (fl (to_float a * to_float b))"

text \<open>
  \<open>a / b\<close>: true division, always a \<open>float\<close>; a zero divisor raises. The quotient of
  two \<open>int\<close>s is rounded once.
\<close>

fun truediv_val :: "pynum \<Rightarrow> pynum \<Rightarrow> rat" where
  "truediv_val (PyInt a) (PyInt b) = fl (of_int a / of_int b)"
| "truediv_val a b = fl (to_float a / to_float b)"

definition py_truediv :: "pynum \<Rightarrow> pynum \<Rightarrow> py_error + pynum" where
  "py_truediv a b =
     (if num_val b = 0 then Inl ZeroDivisionError
      else Inr (PyFloat (truediv_val a b)))"

text \<open>
  \<open>round(x, 3)\<close> of a float: the exact value of \<open>x\<close> goes to the nearest multiple of
  \<open>1/1000\<close>, ties to the even one, and that decimal number to the nearest float.
  \<open>round\<close> of an \<open>int\<close> is the \<open>int\<close>.
\<close>

definition round3 :: "rat \<Rightarrow> rat" where
  "round3 x = of_int (round_half_even (x * 1000)) / 1000"

fun py_round3 :: "pynum \<Rightarrow> pynum" where
  "py_round3 (PyInt i) = PyInt i"
| "py_round3 (PyFloat r) = PyFloat (fl (round3 r))"

text \<open>
  \<open>min(a, b)\<close> returns its first argument unless the second is strictly smaller; numbers
  are compared by their exact values.
\<close>

definition py_min :: "pynum \<Rightarrow> pynum \<Rightarrow> pynum" where
  "py_min a b = (if num_val b < num_val a then b else a)"

text \<open>
  \<open>sum(xs)\<close> starts from the \<open>int\<close> 0 and adds from the left, each float sum
  rounded. (CPython from 3.12 on also carries a correction term through a sum of floats;
  that is not modelled.)
\<close>

definition py_sum :: "pynum list \<Rightarrow> pynum" where
  "py_sum xs = foldl py_add (PyInt 0) xs"

text \<open>One step of \<open>max(...)\<close>: the running maximum changes only for a strictly larger item.\<close>

definition py_max2 :: "pynum \<Rightarrow> pynum \<Rightarrow> pynum" where
  "py_max2 m y = (if num_val m < num_val y then y else m)"

subsection \<open>Printing numbers in f-strings\<close>

definition digit_char :: "nat \<Rightarrow> char" where
  "digit_char d = char_of (48 + d)"

function str_nat :: "nat \<Rightarrow> string" where
  "str_nat n = (if n < 10 then [digit_char n] else str_nat (n div 10) @ [digit_char (n mod 10)])"
  by pat_completeness auto
termination
  by (relation "measure (\<lambda>n. n)") auto

declare str_nat.simps [simp del]

definition str_int :: "int \<Rightarrow> string" where
  "str_int i = (if i < 0 then CHR ''-'' # str_nat (nat (- i)) else str_nat (nat i))"

text \<open>The format \<^verbatim>\<open>{n:03d}\<close>: decimal, padded with zeros to a width of at least three.\<close>

definition format_03d :: "nat \<Rightarrow> string" where
  "format_03d n = replicate (3 - length (str_nat n)) CHR ''0'' @ str_nat n"

text \<open>
  \<open>str\<close> of a number inside an f-string. The shortest-repr printing of a float is a
  parameter \<open>float_repr\<close>.
\<close>

fun py_str :: "(rat \<Rightarrow> string) \<Rightarrow> pynum \<Rightarrow> string" where
  "py_str float_repr (PyInt i) = str_int i"
| "py_str float_repr (PyFloat r) = float_repr r"

text \<open>\<open>str.lower()\<close>, on ASCII letters; other characters are left as they are.\<close>

definition lower_char :: "char \<Rightarrow> char" where
  "lower_char c = (let n = (of_char c :: nat) in if 65 \<le> n \<and> n \<le> 90 then char_of (n + 32) else c)"

definition lower :: "string \<Rightarrow> string" where
  "lower s = map lower_char s"

subsection \<open>The element tree\<close>

text \<open>
  An lxml element: its tag in Clark notation (\<^verbatim>\<open>{namespace-uri}localname\<close>, or the bare
  local name for an element in no namespace), its attributes in order, its text and its
  children. \<open>nid\<close> is the identity of the Python object, so that a reference obtained from
  one query still denotes the same node after the tree has been changed elsewhere.
\<close>

datatype element =
  Element (nid: nat) (tag: string) (attrib: "(string \<times> string) list")
          (text_content: "string option") (children: "element list")

text \<open>The namespace table \<^verbatim>\<open>inkex.NSS\<close> and \<^verbatim>\<open>inkex.addNS\<close> of the host library.\<close>

definition NSS :: "string \<Rightarrow> string option" where
  "NSS = map_of
     [(''svg'', ''http://www.w3.org/2000/svg''),
      (''inkscape'', ''http://www.inkscape.org/namespaces/inkscape'')]"

definition addNS :: "string \<Rightarrow> string \<Rightarrow> string" where
  "addNS t ns = (case NSS ns of None \<Rightarrow> t | Some uri \<Rightarrow> ''{'' @ uri @ ''}'' @ t)"

definition get_attr :: "element \<Rightarrow> string \<Rightarrow> string option" where
  "get_attr e name = map_of (attrib e) name"

fun set_attr :: "string \<Rightarrow> string \<Rightarrow> element \<Rightarrow> element" where
  "set_attr name v (Element i t a x cs) = Element i t (AList.update name v a) x cs"

text \<open>All elements of a tree in document order, the root first.\<close>

fun iter_elems :: "element \<Rightarrow> element list" where
  "iter_elems (Element i t a x cs) = Element i t a x cs # concat (map iter_elems cs)"

text \<open>A method call on the node with identity \<open>n\<close>; a node that is not in the tree is not touched.\<close>

fun update_elem :: "nat \<Rightarrow> (element \<Rightarrow> element) \<Rightarrow> element \<Rightarrow> element" where
  "update_elem n f (Element i t a x cs) =
     (if i = n then f (Element i t a x cs)
      else Element i t a x (map (update_elem n f) cs))"

text \<open>An identity that no node of the tree has.\<close>

definition fresh_nid :: "element \<Rightarrow> nat" where
  "fresh_nid svg_root = Suc (foldl max 0 (map nid (iter_elems svg_root)))"

text \<open>\<^verbatim>\<open>getElementById\<close>: the first element in document order carrying that \<open>id\<close>.\<close>

definition getElementById :: "string \<Rightarrow> element \<Rightarrow> element option" where
  "getElementById eid svg_root = find (\<lambda>e. get_attr e ''id'' = Some eid) (iter_elems svg_root)"

text \<open>The query \<^verbatim>\<open>//svg:g[@inkscape:groupmode="layer"]\<close>.\<close>

definition svg_layers :: "element \<Rightarrow> element list" where
  "svg_layers svg_root =
     filter (\<lambda>e. tag e = addNS ''g'' ''svg'' \<and>
                 get_attr e (addNS ''groupmode'' ''inkscape'') = Some ''layer'')
            (iter_elems svg_root)"

subsection \<open>The extension\<close>

record Layer =
  id' :: string
  label :: string

record Export =
  visible_layers :: "string set"
  file_name :: string

record options =
  output_dir :: string
  prefix :: string
  enumerate_opt :: bool
  include_background :: bool
  animation_style :: string

text \<open>
  \<open>document\<close> is \<^verbatim>\<open>self.document\<close>, whose root \<^verbatim>\<open>self.root\<close> and \<^verbatim>\<open>self.svg\<close> also
  denote; \<open>messages\<close> collects what \<^verbatim>\<open>inkex.errormsg\<close> and \<^verbatim>\<open>self.msg\<close> print;
  \<open>files\<close> is the log of \<^verbatim>\<open>document.write\<close> calls.
\<close>

record state =
  document :: element
  messages :: "string list"
  files :: "(string \<times> element) list"

definition errormsg :: "string \<Rightarrow> state \<Rightarrow> state" where
  "errormsg m st = st\<lparr>messages := messages st @ [m]\<rparr>"

fun layers_of :: "element list \<Rightarrow> py_error + Layer list" where
  "layers_of [] = Inr []"
| "layers_of (layer # rest) =
     (case get_attr layer ''id'' of
        None \<Rightarrow> Inl KeyError
      | Some i \<Rightarrow>
          (case layers_of rest of
             Inl e \<Rightarrow> Inl e
           | Inr ls \<Rightarrow>
               Inr (\<lparr>id' = i,
                     label = lower (case get_attr layer (addNS ''label'' ''inkscape'') of
                                      None \<Rightarrow> [] | Some l \<Rightarrow> l)\<rparr> # ls)))"

definition get_layer_list :: "state \<Rightarrow> py_error + Layer list" where
  "get_layer_list st = layers_of (rev (svg_layers (document st)))"

definition visible_upto :: "Layer list \<Rightarrow> nat \<Rightarrow> string set" where
  "visible_upto layer_list counter =
     set (map (\<lambda>(idx, other_layer). id' other_layer)
              (filter (\<lambda>(idx, other_layer). idx \<le> counter) (enumerate 0 layer_list)))"

fun export_loop :: "options \<Rightarrow> Layer list \<Rightarrow> (nat \<times> Layer) list \<Rightarrow> Export list" where
  "export_loop opts layer_list [] = []"
| "export_loop opts layer_list ((counter, layer) # rest) =
     (if counter = 0 \<and> \<not> include_background opts then export_loop opts layer_list rest
      else \<lparr>visible_layers = visible_upto layer_list counter,
            file_name = (if enumerate_opt opts
                         then format_03d (counter + 1) @ ''_'' @ label layer
                         else label layer)\<rparr>
           # export_loop opts layer_list rest)"

definition get_export_list :: "options \<Rightarrow> Layer list \<Rightarrow> Export list" where
  "get_export_list opts layer_list = export_loop opts layer_list (enumerate 0 layer_list)"

text \<open>The query \<^verbatim>\<open>.//svg:path\<close>: the proper descendants of the layer that are paths.\<close>

definition get_all_paths_in_layer :: "element \<Rightarrow> element list" where
  "get_all_paths_in_layer layer_element =
     filter (\<lambda>e. tag e = addNS ''path'' ''svg'')
            (concat (map iter_elems (children layer_element)))"

text \<open>
  \<open>csplength_path elem\<close> stands for \<^verbatim>\<open>csplength(elem.path.to_superpath())\<close> of the host
  library: the segment lengths of every sub-path, and the total. The first branch is
  taken only for two or more sub-paths, so \<open>max\<close> always has an item.
\<close>

definition get_animatable_length :: "(element \<Rightarrow> pynum list list \<times> pynum) \<Rightarrow> element \<Rightarrow> pynum" where
  "get_animatable_length csplength_path elem =
     (case csplength_path elem of
        (subpath_lengths, path_length) \<Rightarrow>
          if length subpath_lengths > 1 then
            (case map py_sum subpath_lengths of
               m # ms \<Rightarrow> foldl py_max2 m ms
             | [] \<Rightarrow> path_length)
          else path_length)"

text \<open>
  \<^verbatim>\<open>self.root.remove(old_tag)\<close>: the child of the root with that identity goes;
  lxml raises \<open>ValueError\<close> for a node that is not a child of the root.
\<close>

definition remove_child :: "element \<Rightarrow> element \<Rightarrow> py_error + element" where
  "remove_child old_tag svg_root =
     (if nid old_tag \<in> set (map nid (children svg_root))
      then Inr (Element (nid svg_root) (tag svg_root) (attrib svg_root) (text_content svg_root)
                  (filter (\<lambda>c. nid c \<noteq> nid old_tag) (children svg_root)))
      else Inl ValueError)"

text \<open>
  \<^verbatim>\<open>etree.SubElement(self.root, "style", {"id": tag_id})\<close> and the assignment of its
  text: a new last child of the root, a new object with identity \<open>new_nid\<close>. Its tag is
  the bare \<open>style\<close>, in no namespace.
\<close>

definition append_style :: "nat \<Rightarrow> string \<Rightarrow> string \<Rightarrow> element \<Rightarrow> element" where
  "append_style new_nid tag_id content svg_root =
     Element (nid svg_root) (tag svg_root) (attrib svg_root) (text_content svg_root)
       (children svg_root @ [Element new_nid ''style'' [(''id'', tag_id)] (Some content) []])"

text \<open>
  \<^verbatim>\<open>//svg:style\<close> selects the elements of the document whose tag is \<open>style\<close> in the
  SVG namespace. The new element is an object that the document did not hold before the
  call, the removed one included.
\<close>

definition add_or_replace_style_tag :: "string \<Rightarrow> string \<Rightarrow> state \<Rightarrow> py_error + state" where
  "add_or_replace_style_tag tag_id content st =
     (let style_tags = filter (\<lambda>e. tag e = addNS ''style'' ''svg'') (iter_elems (document st));
          old_tag = find (\<lambda>t. get_attr t ''id'' = Some tag_id) style_tags
      in case (case old_tag of
                 None \<Rightarrow> Inr (document st)
               | Some t \<Rightarrow> remove_child t (document st)) of
           Inl e \<Rightarrow> Inl e
         | Inr svg_root \<Rightarrow>
             Inr (st\<lparr>document :=
                    append_style (fresh_nid (document st)) tag_id content svg_root\<rparr>))"

definition path_style_content ::
  "(rat \<Rightarrow> string) \<Rightarrow> string \<Rightarrow> pynum \<Rightarrow> pynum \<Rightarrow> pynum \<Rightarrow> pynum \<Rightarrow> pynum \<Rightarrow> string" where
  "path_style_content float_repr path_id start_percent end_percent length' start_length end_length =
     ''\<newline>'' @
     ''        #'' @ path_id @ '' {\<newline>'' @
     ''          animation-name: '' @ path_id @ '';\<newline>'' @
     ''          stroke-dasharray: '' @ py_str float_repr length' @ '' !important;\<newline>'' @
     ''        }\<newline>'' @
     ''        @keyframes '' @ path_id @ '' {\<newline>'' @
     ''          0%, '' @ py_str float_repr start_percent @ ''% {stroke-dashoffset: '' @
        py_str float_repr start_length @ '';}\<newline>'' @
     ''          '' @ py_str float_repr end_percent @ ''%, 100% {stroke-dashoffset: '' @
        py_str float_repr end_length @ '';}\<newline>'' @
     ''        }\<newline>''"

text \<open>\<^verbatim>\<open>element.get("id")\<close> is \<open>None\<close> for a path without an id, which prints as \<open>None\<close>.\<close>

definition animate_path ::
  "(rat \<Rightarrow> string) \<Rightarrow> element \<Rightarrow> pynum \<Rightarrow> pynum \<Rightarrow> pynum \<Rightarrow> pynum \<Rightarrow> pynum \<Rightarrow> string \<Rightarrow> state
     \<Rightarrow> py_error + state" where
  "animate_path float_repr element start_percent end_percent length' start_length end_length anim_id st =
     (let path_id = (case get_attr element ''id'' of None \<Rightarrow> ''None'' | Some i \<Rightarrow> i)
      in case add_or_replace_style_tag (''pathanim_'' @ path_id)
                (path_style_content float_repr path_id start_percent end_percent
                   length' start_length end_length) st of
           Inl e \<Rightarrow> Inl e
         | Inr st' \<Rightarrow>
             Inr (st'\<lparr>document :=
                    update_elem (nid element) (set_attr ''class'' anim_id) (document st')\<rparr>))"

text \<open>Lines 123 and 124: the new \<open>end_percent\<close>.\<close>

definition advance :: "pynum \<Rightarrow> pynum \<Rightarrow> pynum \<Rightarrow> py_error + pynum" where
  "advance total_length end_percent length' =
     (case py_truediv length' total_length of
        Inl e \<Rightarrow> Inl e
      | Inr q \<Rightarrow>
          Inr (py_min (py_add end_percent (py_round3 (py_mul q (PyInt 100)))) (PyInt 100)))"

text \<open>The loop of \<open>add_animation\<close>, with the calls of \<open>animate_path\<close> it makes.\<close>

fun animate_loop ::
  "(rat \<Rightarrow> string) \<Rightarrow> element list \<Rightarrow> string \<Rightarrow> pynum \<Rightarrow> pynum \<Rightarrow> (nat \<times> pynum) list \<Rightarrow> state
     \<Rightarrow> py_error + state" where
  "animate_loop float_repr to_animate anim_id total_length end_percent [] st = Inr st"
| "animate_loop float_repr to_animate anim_id total_length end_percent ((index, length') # rest) st =
     (let start_percent = end_percent
      in case advance total_length end_percent length' of
           Inl e \<Rightarrow> Inl e
         | Inr end_percent' \<Rightarrow>
             if index < length to_animate then
               (case animate_path float_repr (to_animate ! index) start_percent end_percent'
                       length' length' (PyInt 0) anim_id st of
                  Inl e \<Rightarrow> Inl e
                | Inr st' \<Rightarrow>
                    animate_loop float_repr to_animate anim_id total_length end_percent' rest st')
             else Inl IndexError)"

text \<open>
  For stating what the loop does, the two halves the specification names. \<open>timeline\<close>
  is its allocation: the pairs \<open>(start_percent, end_percent)\<close> of the loop, without the
  calls. \<open>animate_all\<close> is its rule emission: the calls of \<open>animate_path\<close> that the
  loop makes for given pairs, in order, up to the first error.
\<close>

fun timeline :: "pynum \<Rightarrow> pynum \<Rightarrow> pynum list \<Rightarrow> py_error + (pynum \<times> pynum) list" where
  "timeline total_length end_percent [] = Inr []"
| "timeline total_length end_percent (l # ls) =
     (case advance total_length end_percent l of
        Inl e \<Rightarrow> Inl e
      | Inr end_percent' \<Rightarrow>
          (case timeline total_length end_percent' ls of
             Inl e \<Rightarrow> Inl e
           | Inr rest \<Rightarrow> Inr ((end_percent, end_percent') # rest)))"

fun animate_all ::
  "(rat \<Rightarrow> string) \<Rightarrow> element list \<Rightarrow> string \<Rightarrow> ((nat \<times> pynum) \<times> (pynum \<times> pynum)) list \<Rightarrow> state
     \<Rightarrow> py_error + state" where
  "animate_all float_repr to_animate anim_id [] st = Inr st"
| "animate_all float_repr to_animate anim_id (((index, length'), (start_percent, end_percent)) # rest) st =
     (if index < length to_animate then
        (case animate_path float_repr (to_animate ! index) start_percent end_percent
                length' length' (PyInt 0) anim_id st of
           Inl e \<Rightarrow> Inl e
         | Inr st' \<Rightarrow> animate_all float_repr to_animate anim_id rest st')
      else Inl IndexError)"

definition animation_style_content :: "string \<Rightarrow> string \<Rightarrow> string" where
  "animation_style_content anim_id style =
     ''\<newline>'' @
     ''        .'' @ anim_id @ '' {\<newline>'' @
     ''          animation-duration: 1s;\<newline>'' @
     ''          animation-timing-function: '' @ style @ '';\<newline>'' @
     ''          animation-delay: 0s;\<newline>'' @
     ''          animation-iteration-count: 1;\<newline>'' @
     ''          animation-fill-mode: forwards;\<newline>'' @
     ''          }\<newline>''"

definition add_animation ::
  "options \<Rightarrow> (element \<Rightarrow> pynum list list \<times> pynum) \<Rightarrow> (rat \<Rightarrow> string) \<Rightarrow> element list \<Rightarrow> string
     \<Rightarrow> state \<Rightarrow> py_error + state" where
  "add_animation opts csplength_path float_repr to_animate anim_id st =
     (let lengths = map (get_animatable_length csplength_path)
                        (filter (\<lambda>element. tag element = addNS ''path'' ''svg'') to_animate)
      in if lengths = [] then
           Inr (errormsg ''Please convert all objects to paths before running this extension.'' st)
         else
           (let total_length = py_sum lengths
            in case animate_loop float_repr to_animate anim_id total_length (PyInt 0)
                      (enumerate 0 lengths) st of
                 Inl e \<Rightarrow> Inl e
               | Inr st' \<Rightarrow>
                   add_or_replace_style_tag anim_id
                     (animation_style_content anim_id (animation_style opts)) st'))"

text \<open>
  The loop of \<open>export_to_svg\<close> over the layers of the copy; \<^verbatim>\<open>layer.attrib["id"]\<close>
  raises \<open>KeyError\<close> for a layer without an id.
\<close>

fun clone_visibility :: "Export \<Rightarrow> element list \<Rightarrow> element \<Rightarrow> py_error + element" where
  "clone_visibility export_item [] doc = Inr doc"
| "clone_visibility export_item (layer # rest) doc =
     (case get_attr layer ''id'' of
        None \<Rightarrow> Inl KeyError
      | Some i \<Rightarrow>
          clone_visibility export_item rest
            (update_elem (nid layer)
               (set_attr ''style''
                  (if i \<in> visible_layers export_item then ''display:inline'' else ''display:none''))
               doc))"

text \<open>
  \<open>deepcopy\<close> of a value is the value: the copy is changed and written, and
  \<open>document st\<close> stays as it is. The output path is the directory, a separator and the
  file name.
\<close>

definition export_to_svg :: "Export \<Rightarrow> string \<Rightarrow> state \<Rightarrow> py_error + state" where
  "export_to_svg export_item out_dir st =
     (let document' = document st
      in case clone_visibility export_item (svg_layers document') document' of
           Inl e \<Rightarrow> Inl e
         | Inr written \<Rightarrow>
             Inr (st\<lparr>files := files st @
                    [(out_dir @ ''/'' @ file_name export_item @ ''.svg'', written)]\<rparr>))"

text \<open>
  The inner loop of \<open>effect\<close>; a layer id that no element carries gives \<open>None\<close>, and
  calling \<open>set\<close> on it raises \<open>AttributeError\<close>.
\<close>

fun set_visibility :: "Layer list \<Rightarrow> Export \<Rightarrow> state \<Rightarrow> py_error + state" where
  "set_visibility [] export_item st = Inr st"
| "set_visibility (layer # rest) export_item st =
     (case getElementById (id' layer) (document st) of
        None \<Rightarrow> Inl AttributeError
      | Some layer_tag \<Rightarrow>
          set_visibility rest export_item
            (st\<lparr>document :=
               update_elem (nid layer_tag)
                 (set_attr ''style''
                    (if id' layer \<in> visible_layers export_item
                     then ''display:inline'' else ''display:none''))
                 (document st)\<rparr>))"

text \<open>
  \<^verbatim>\<open>list(export_item.visible_layers)[-1]\<close>: the last element in the iteration order of
  a Python set of strings. That order follows the strings' hashes, which CPython salts
  anew for each process, so it is a parameter \<open>set_order\<close>.
\<close>

definition top_layer_id :: "(string set \<Rightarrow> string list) \<Rightarrow> Export \<Rightarrow> py_error + string" where
  "top_layer_id set_order export_item =
     (case set_order (visible_layers export_item) of
        [] \<Rightarrow> Inl IndexError
      | x # xs \<Rightarrow> Inr (last (x # xs)))"

definition effect_step ::
  "options \<Rightarrow> (string set \<Rightarrow> string list) \<Rightarrow> (element \<Rightarrow> pynum list list \<times> pynum) \<Rightarrow> (rat \<Rightarrow> string)
     \<Rightarrow> Layer list \<Rightarrow> nat \<Rightarrow> Export \<Rightarrow> state \<Rightarrow> py_error + state" where
  "effect_step opts set_order csplength_path float_repr layer_list idx export_item st =
     (case set_visibility layer_list export_item st of
        Inl e \<Rightarrow> Inl e
      | Inr st1 \<Rightarrow>
          (case top_layer_id set_order export_item of
             Inl e \<Rightarrow> Inl e
           | Inr tid \<Rightarrow>
               (case getElementById tid (document st1) of
                  None \<Rightarrow> Inl AttributeError
                | Some top_layer_tag \<Rightarrow>
                    (case add_animation opts csplength_path float_repr
                            (get_all_paths_in_layer top_layer_tag) (''anim_'' @ str_nat idx) st1 of
                       Inl e \<Rightarrow> Inl e
                     | Inr st2 \<Rightarrow> export_to_svg export_item (output_dir opts) st2))))"

fun effect_loop ::
  "options \<Rightarrow> (string set \<Rightarrow> string list) \<Rightarrow> (element \<Rightarrow> pynum list list \<times> pynum) \<Rightarrow> (rat \<Rightarrow> string)
     \<Rightarrow> Layer list \<Rightarrow> (nat \<times> Export) list \<Rightarrow> state \<Rightarrow> py_error + state" where
  "effect_loop opts set_order csplength_path float_repr layer_list [] st = Inr st"
| "effect_loop opts set_order csplength_path float_repr layer_list ((idx, export_item) # rest) st =
     (case effect_step opts set_order csplength_path float_repr layer_list idx export_item st of
        Inl e \<Rightarrow> Inl e
      | Inr st' \<Rightarrow> effect_loop opts set_order csplength_path float_repr layer_list rest st')"

definition effect ::
  "options \<Rightarrow> (string set \<Rightarrow> string list) \<Rightarrow> (element \<Rightarrow> pynum list list \<times> pynum) \<Rightarrow> (rat \<Rightarrow> string)
     \<Rightarrow> state \<Rightarrow> py_error + state" where
  "effect opts set_order csplength_path float_repr st =
     (case get_layer_list st of
        Inl e \<Rightarrow> Inl e
      | Inr layer_list \<Rightarrow>
          (let export_list = get_export_list opts layer_list
           in case effect_loop opts set_order csplength_path float_repr layer_list
                     (enumerate 0 export_list) st of
                Inl e \<Rightarrow> Inl e
              | Inr st' \<Rightarrow>
                  Inr (errormsg (''Processed '' @ str_nat (length export_list) @ '' export layers.'')
                         st')))"

text \<open>
  For stating properties: the rules a document carries, the id and the text of every
  child of the root that was created as a bare \<open>style\<close> element, in order.
\<close>

definition style_rules :: "element \<Rightarrow> (string option \<times> string option) list" where
  "style_rules svg_root =
     map (\<lambda>c. (get_attr c ''id'', text_content c))
         (filter (\<lambda>c. tag c = ''style'') (children svg_root))"

text \<open>
  For stating what a written copy is. \<open>is_layer\<close> is the test of the query
  \<^verbatim>\<open>//svg:g[@inkscape:groupmode="layer"]\<close> on one element, and \<open>layer_display\<close> the
  value the loop of \<open>export_to_svg\<close> gives to the \<open>style\<close> attribute of a layer.
  \<open>set_display\<close> is one round of that loop. \<open>resolve_visibility\<close> is the document in
  which every layer has got that value and nothing else has changed: the same nodes in
  the same places, with the same tags, texts and other attributes. (A layer without an
  id, at which the loop raises, counts as hidden.)
\<close>

definition is_layer :: "element \<Rightarrow> bool" where
  "is_layer e = (tag e = addNS ''g'' ''svg'' \<and>
                 get_attr e (addNS ''groupmode'' ''inkscape'') = Some ''layer'')"

definition layer_display :: "string set \<Rightarrow> element \<Rightarrow> string" where
  "layer_display visible layer =
     (if (case get_attr layer ''id'' of None \<Rightarrow> False | Some i \<Rightarrow> i \<in> visible)
      then ''display:inline'' else ''display:none'')"

definition set_display :: "string set \<Rightarrow> element \<Rightarrow> element \<Rightarrow> element" where
  "set_display visible doc layer =
     update_elem (nid layer) (set_attr ''style'' (layer_display visible layer)) doc"

fun resolve_visibility :: "string set \<Rightarrow> element \<Rightarrow> element" where
  "resolve_visibility visible (Element i t a x cs) =
     (let e = Element i t a x (map (resolve_visibility visible) cs)
      in if is_layer e then set_attr ''style'' (layer_display visible e) e else e)"

section \<open>Properties\<close>

subsection \<open>Rounding to a float\<close>

lemma pow2_powi: "pow2 k = 2 powi k"
  by (simp add: pow2_def power_int_def power_inverse field_simps)

lemma pow2_pos: "0 < pow2 k"
  by (simp add: pow2_powi)

lemma pow2_add: "pow2 (a + b) = pow2 a * pow2 b"
  by (simp add: pow2_powi power_int_add)

lemma pow2_mono: "a \<le> b \<Longrightarrow> pow2 a \<le> pow2 b"
  by (simp add: pow2_powi power_int_increasing)

lemma pow2_strict: "a < b \<Longrightarrow> pow2 a < pow2 b"
  by (simp add: pow2_powi power_int_strict_increasing)

lemma pow2_nat: "pow2 (int n) = 2 ^ n"
  by (simp add: pow2_def)

lemma round_half_even_of_int: "round_half_even (of_int n) = n"
  by (simp add: round_half_even_def)

lemma round_half_even_mono: "x \<le> y \<Longrightarrow> round_half_even x \<le> round_half_even y"
proof -
  assume xy: "x \<le> y"
  have fx: "\<lfloor>x\<rfloor> \<le> \<lfloor>y\<rfloor>" using xy by (rule floor_mono)
  show ?thesis
  proof (cases "\<lfloor>x\<rfloor> = \<lfloor>y\<rfloor>")
    case True
    with xy show ?thesis by (auto simp: round_half_even_def Let_def)
  next
    case False
    with fx have "\<lfloor>x\<rfloor> + 1 \<le> \<lfloor>y\<rfloor>" by simp
    moreover have "round_half_even x \<le> \<lfloor>x\<rfloor> + 1" by (auto simp: round_half_even_def Let_def)
    moreover have "\<lfloor>y\<rfloor> \<le> round_half_even y" by (auto simp: round_half_even_def Let_def)
    ultimately show ?thesis by linarith
  qed
qed

lemma round_half_even_ge: "of_int a \<le> x \<Longrightarrow> a \<le> round_half_even x"
  using round_half_even_mono[of "of_int a" x] by (simp add: round_half_even_of_int)

lemma round_half_even_le: "x \<le> of_int b \<Longrightarrow> round_half_even x \<le> b"
  using round_half_even_mono[of x "of_int b"] by (simp add: round_half_even_of_int)

lemma expo_bounds:
  assumes "x \<noteq> 0"
  shows "pow2 (expo x) \<le> \<bar>x\<bar> \<and> \<bar>x\<bar> < pow2 (expo x + 1)"
proof (cases "1 \<le> \<bar>x\<bar>")
  case True
  let ?n = "\<lfloor>\<bar>x\<bar>\<rfloor>"
  from True have n: "0 < ?n" by linarith
  from bitlen_bounds[OF n] have b: "2 ^ nat (bitlen ?n - 1) \<le> ?n" "?n < 2 ^ nat (bitlen ?n)"
    by simp_all
  from n have bl: "1 \<le> bitlen ?n" by (simp add: bitlen_alt_def)
  have e: "expo x = bitlen ?n - 1" using True by (simp add: expo_def)
  have "pow2 (expo x) = of_int (2 ^ nat (bitlen ?n - 1))"
    using bl by (simp add: e pow2_def)
  also have "\<dots> \<le> of_int ?n" using b(1) by (simp only: of_int_le_iff)
  also have "\<dots> \<le> \<bar>x\<bar>" by simp
  finally have lo: "pow2 (expo x) \<le> \<bar>x\<bar>" .
  from b(2) have "?n + 1 \<le> 2 ^ nat (bitlen ?n)" by simp
  then have "(of_int (?n + 1) :: rat) \<le> of_int (2 ^ nat (bitlen ?n))" by (simp only: of_int_le_iff)
  moreover have "\<bar>x\<bar> < of_int (?n + 1)" by linarith
  moreover have "pow2 (expo x + 1) = of_int (2 ^ nat (bitlen ?n))"
    using bl by (simp add: e pow2_def)
  ultimately have "\<bar>x\<bar> < pow2 (expo x + 1)" by simp
  with lo show ?thesis by simp
next
  case False
  with assms have a: "0 < \<bar>x\<bar>" "\<bar>x\<bar> < 1" by simp_all
  let ?r = "1 / \<bar>x\<bar>"
  let ?m = "\<lceil>?r\<rceil> - 1"
  from a have r1: "1 < ?r" by (simp add: field_simps)
  then have m: "0 < ?m" by linarith
  have mr: "of_int ?m < ?r" "?r \<le> of_int ?m + 1" by linarith+
  from bitlen_bounds[OF m] have b: "2 ^ nat (bitlen ?m - 1) \<le> ?m" "?m < 2 ^ nat (bitlen ?m)"
    by simp_all
  from m have bl: "1 \<le> bitlen ?m" by (simp add: bitlen_alt_def)
  have e: "expo x = - bitlen ?m" using False by (simp add: expo_def)
  have "(of_int (2 ^ nat (bitlen ?m - 1)) :: rat) \<le> of_int ?m" using b(1) by (simp only: of_int_le_iff)
  with mr(1) have lo': "(2::rat) ^ nat (bitlen ?m - 1) < ?r" by simp
  from b(2) have "?m + 1 \<le> 2 ^ nat (bitlen ?m)" by simp
  then have c1: "(of_int (?m + 1) :: rat) \<le> of_int (2 ^ nat (bitlen ?m))"
    by (simp only: of_int_le_iff)
  have c2: "(of_int (2 ^ nat (bitlen ?m)) :: rat) = 2 ^ nat (bitlen ?m)" by simp
  have c3: "?r \<le> of_int (?m + 1)" using mr(2) by simp
  from c3 c1 have "?r \<le> of_int (2 ^ nat (bitlen ?m))" by (rule order_trans)
  then have hi': "?r \<le> (2::rat) ^ nat (bitlen ?m)" by (simp only: c2)
  have p1: "pow2 (expo x) = 1 / 2 ^ nat (bitlen ?m)"
    using bl by (simp add: e pow2_def)
  have p2: "pow2 (expo x + 1) = 1 / 2 ^ nat (bitlen ?m - 1)"
  proof (cases "bitlen ?m = 1")
    case True
    then show ?thesis by (simp add: e pow2_def)
  next
    case False
    with bl have "1 < bitlen ?m" by simp
    then show ?thesis by (simp add: e pow2_def nat_diff_distrib)
  qed
  from hi' a(1) have "1 / 2 ^ nat (bitlen ?m) \<le> \<bar>x\<bar>"
    by (simp add: field_simps)
  moreover from lo' a(1) have "\<bar>x\<bar> < 1 / 2 ^ nat (bitlen ?m - 1)"
    by (simp add: field_simps)
  ultimately show ?thesis by (simp add: p1 p2)
qed

lemma expo_unique:
  assumes "pow2 k \<le> \<bar>x\<bar>" and "\<bar>x\<bar> < pow2 (k + 1)"
  shows "expo x = k"
proof -
  from assms(1) pow2_pos[of k] have nz: "x \<noteq> 0" by auto
  note b = expo_bounds[OF nz]
  have "\<not> expo x < k"
  proof
    assume "expo x < k"
    then have "pow2 (expo x + 1) \<le> pow2 k" by (intro pow2_mono) simp
    with b assms(1) show False by linarith
  qed
  moreover have "\<not> k < expo x"
  proof
    assume "k < expo x"
    then have "pow2 (k + 1) \<le> pow2 (expo x)" by (intro pow2_mono) simp
    with b assms(2) show False by linarith
  qed
  ultimately show ?thesis by simp
qed


lemma pow2_52: "pow2 52 = 2 ^ 52" and pow2_53: "pow2 53 = 2 ^ 53"
  using pow2_nat[of 52] pow2_nat[of 53] by simp_all

lemma pow2_up52: "pow2 k = pow2 (k - 52) * 2 ^ 52"
proof -
  have e: "k = k - 52 + 52" by simp
  show ?thesis by (subst e) (simp only: pow2_add pow2_52)
qed

lemma pow2_up53: "pow2 (k + 1) = pow2 (k - 52) * 2 ^ 53"
proof -
  have e: "k + 1 = k - 52 + 53" by simp
  show ?thesis by (subst e) (simp only: pow2_add pow2_53)
qed

lemma scaled_bounds:
  assumes "0 < x"
  shows "2 ^ 52 \<le> x / pow2 (expo x - 52) \<and> x / pow2 (expo x - 52) < 2 ^ 53"
proof -
  from assms have nz: "x \<noteq> 0" and ax: "\<bar>x\<bar> = x" by simp_all
  from expo_bounds[OF nz] ax have b: "pow2 (expo x) \<le> x" "x < pow2 (expo x + 1)" by simp_all
  let ?s = "expo x - 52"
  have e1: "pow2 (expo x) = pow2 ?s * 2 ^ 52" by (rule pow2_up52)
  have e2: "pow2 (expo x + 1) = pow2 ?s * 2 ^ 53" by (rule pow2_up53)
  from b(1) e1 pow2_pos[of ?s] have "2 ^ 52 \<le> x / pow2 ?s"
    by (simp add: field_simps)
  moreover from b(2) e2 pow2_pos[of ?s] have "x / pow2 ?s < 2 ^ 53"
    by (simp add: field_simps)
  ultimately show ?thesis by simp
qed

lemma fl_pos_form:
  assumes "0 < x"
  shows "fl x = of_int (round_half_even (x / pow2 (expo x - 52))) * pow2 (expo x - 52) \<and>
         2 ^ 52 \<le> round_half_even (x / pow2 (expo x - 52)) \<and>
         round_half_even (x / pow2 (expo x - 52)) \<le> 2 ^ 53"
proof -
  from scaled_bounds[OF assms]
  have lo: "of_int (2 ^ 52) \<le> x / pow2 (expo x - 52)"
    and hi: "x / pow2 (expo x - 52) \<le> of_int (2 ^ 53)"
    by simp_all
  from round_half_even_ge[OF lo] round_half_even_le[OF hi] assms show ?thesis
    by (simp add: fl_def)
qed

lemma fl_bounds:
  assumes "0 < x"
  shows "pow2 (expo x) \<le> fl x \<and> fl x \<le> pow2 (expo x + 1)"
proof -
  let ?s = "expo x - 52"
  let ?m = "round_half_even (x / pow2 ?s)"
  from fl_pos_form[OF assms] have f: "fl x = of_int ?m * pow2 ?s"
    and m: "2 ^ 52 \<le> ?m" "?m \<le> 2 ^ 53" by simp_all
  have e1: "pow2 (expo x) = 2 ^ 52 * pow2 ?s"
    using pow2_up52[of "expo x"] by (simp only: mult.commute)
  have e2: "pow2 (expo x + 1) = 2 ^ 53 * pow2 ?s"
    using pow2_up53[of "expo x"] by (simp only: mult.commute)
  from m(1) have "(of_int (2 ^ 52) :: rat) \<le> of_int ?m" by (simp only: of_int_le_iff)
  then have "(2 ^ 52 :: rat) * pow2 ?s \<le> of_int ?m * pow2 ?s"
    using pow2_pos[of ?s] by (simp add: mult_right_mono)
  moreover from m(2) have "(of_int ?m :: rat) \<le> of_int (2 ^ 53)" by (simp only: of_int_le_iff)
  then have "of_int ?m * pow2 ?s \<le> (2 ^ 53 :: rat) * pow2 ?s"
    using pow2_pos[of ?s] by (simp add: mult_right_mono)
  ultimately show ?thesis by (simp add: f e1 e2)
qed

lemma fl_zero: "fl 0 = 0"
  by (simp add: fl_def)

lemma fl_pos: "0 < x \<Longrightarrow> 0 < fl x"
  using fl_bounds[of x] pow2_pos[of "expo x"] by linarith

lemma fl_nonneg: "0 \<le> x \<Longrightarrow> 0 \<le> fl x"
  using fl_pos[of x] by (cases "x = 0") (simp_all add: fl_zero less_imp_le)

lemma expo_mono:
  assumes "0 < x" and "x \<le> y"
  shows "expo x \<le> expo y"
proof (rule ccontr)
  assume "\<not> expo x \<le> expo y"
  then have "expo y + 1 \<le> expo x" by simp
  then have le: "pow2 (expo y + 1) \<le> pow2 (expo x)" by (rule pow2_mono)
  from assms have y: "0 < y" by simp
  from expo_bounds[of x] assms(1) have "pow2 (expo x) \<le> x" by simp
  moreover from expo_bounds[of y] y have "y < pow2 (expo y + 1)" by simp
  ultimately show False using le assms(2) by linarith
qed

lemma fl_mono:
  assumes "0 \<le> x" and "x \<le> y"
  shows "fl x \<le> fl y"
proof (cases "x = 0")
  case True
  from assms have "0 \<le> y" by simp
  from fl_nonneg[OF this] True show ?thesis by (simp add: fl_zero)
next
  case False
  with assms have x: "0 < x" and y: "0 < y" by simp_all
  show ?thesis
  proof (cases "expo x = expo y")
    case True
    let ?s = "expo y - 52"
    from assms(2) pow2_pos[of ?s] have "x / pow2 ?s \<le> y / pow2 ?s"
      by (simp add: divide_right_mono)
    from round_half_even_mono[OF this]
    have "(of_int (round_half_even (x / pow2 ?s)) :: rat) \<le> of_int (round_half_even (y / pow2 ?s))"
      by (simp only: of_int_le_iff)
    then have "of_int (round_half_even (x / pow2 ?s)) * pow2 ?s
        \<le> of_int (round_half_even (y / pow2 ?s)) * pow2 ?s"
      using pow2_pos[of ?s] by (simp add: mult_right_mono)
    with x y True show ?thesis by (simp add: fl_def)
  next
    case False
    with expo_mono[OF x assms(2)] have "expo x + 1 \<le> expo y" by simp
    then have "pow2 (expo x + 1) \<le> pow2 (expo y)" by (rule pow2_mono)
    with fl_bounds[OF x] fl_bounds[OF y] show ?thesis by linarith
  qed
qed

lemma fl_unfold:
  "z \<noteq> 0 \<Longrightarrow> fl z = of_int (round_half_even (z / pow2 (expo z - 52))) * pow2 (expo z - 52)"
  by (simp add: fl_def)

lemma fl_idem:
  assumes "0 \<le> x"
  shows "fl (fl x) = fl x"
proof (cases "x = 0")
  case True
  then show ?thesis by (simp add: fl_zero)
next
  case False
  with assms have x: "0 < x" by simp
  let ?s = "expo x - 52"
  let ?m = "round_half_even (x / pow2 ?s)"
  from fl_pos_form[OF x] have f: "fl x = of_int ?m * pow2 ?s"
    and m: "2 ^ 52 \<le> ?m" "?m \<le> 2 ^ 53" by simp_all
  from fl_pos[OF x] have fp: "0 < fl x" .
  then have afl: "\<bar>fl x\<bar> = fl x" by simp
  from fp have fnz: "fl x \<noteq> 0" by simp
  show ?thesis
  proof (cases "?m = 2 ^ 53")
    case True
    have "fl x = of_int (2 ^ 53) * pow2 ?s" by (simp only: f True)
    also have "\<dots> = pow2 ?s * 2 ^ 53" by simp
    also have "\<dots> = pow2 (expo x + 1)" by (rule pow2_up53[symmetric])
    finally have v: "fl x = pow2 (expo x + 1)" .
    have "pow2 (expo x + 1) < pow2 (expo x + 1 + 1)" by (rule pow2_strict) simp
    with v afl have "expo (fl x) = expo x + 1"
      by (intro expo_unique) simp_all
    then have s': "expo (fl x) - 52 = ?s + 1" by simp
    have s1: "?s + 1 = expo x + 1 - 52" by simp
    have up: "pow2 (expo x + 1) = pow2 (?s + 1) * 2 ^ 52"
      by (subst s1) (rule pow2_up52)
    with v have q: "fl x / pow2 (?s + 1) = of_int (2 ^ 52)"
      using pow2_pos[of "?s + 1"] by simp
    have "fl (fl x) = of_int (round_half_even (fl x / pow2 (?s + 1))) * pow2 (?s + 1)"
      using fl_unfold[OF fnz] by (simp only: s')
    also have "\<dots> = of_int (2 ^ 52) * pow2 (?s + 1)"
      by (simp only: q round_half_even_of_int)
    also have "\<dots> = pow2 (?s + 1) * 2 ^ 52" by simp
    also have "\<dots> = fl x" by (simp only: v up)
    finally show ?thesis .
  next
    case False
    with m(2) have lt: "?m < 2 ^ 53" by simp
    then have "(of_int ?m :: rat) < of_int (2 ^ 53)" by (simp only: of_int_less_iff)
    then have "of_int ?m * pow2 ?s < (2 ^ 53 :: rat) * pow2 ?s"
      using pow2_pos[of ?s] by (simp add: mult_strict_right_mono)
    moreover have "pow2 (expo x + 1) = 2 ^ 53 * pow2 ?s"
      using pow2_up53[of "expo x"] by (simp only: mult.commute)
    ultimately have hi: "fl x < pow2 (expo x + 1)" by (simp add: f)
    from fl_bounds[OF x] have lo: "pow2 (expo x) \<le> fl x" by simp
    from lo hi afl have "expo (fl x) = expo x" by (intro expo_unique) simp_all
    then have s': "expo (fl x) - 52 = ?s" by simp
    have q: "fl x / pow2 ?s = of_int ?m" using pow2_pos[of ?s] by (simp add: f)
    have "fl (fl x) = of_int (round_half_even (fl x / pow2 ?s)) * pow2 ?s"
      using fl_unfold[OF fnz] by (simp only: s')
    also have "\<dots> = of_int ?m * pow2 ?s" by (simp only: q round_half_even_of_int)
    finally show ?thesis by (simp add: f)
  qed
qed

subsection \<open>Arithmetic of the timeline\<close>

lemma fl_100: "fl 100 = 100"
  by code_simp

lemma num_val_py_min: "num_val (py_min a b) = min (num_val a) (num_val b)"
  by (simp add: py_min_def min_def)

lemma round_half_even_nonneg: "0 \<le> x \<Longrightarrow> 0 \<le> round_half_even x"
  using round_half_even_ge[of 0 x] by simp

lemma round3_nonneg: "0 \<le> x \<Longrightarrow> 0 \<le> round3 x"
  by (simp add: round3_def round_half_even_nonneg)

lemma to_float_nonneg: "0 \<le> num_val a \<Longrightarrow> 0 \<le> to_float a"
  by (cases a) (simp_all add: fl_nonneg)

lemma truediv_val_nonneg:
  "0 \<le> num_val a \<Longrightarrow> 0 \<le> num_val b \<Longrightarrow> 0 \<le> truediv_val a b"
  by (cases a; cases b) (simp_all add: fl_nonneg)

lemma advance_zero: "num_val total_length = 0 \<Longrightarrow> advance total_length e l = Inl ZeroDivisionError"
  by (simp add: advance_def py_truediv_def)

lemma advance_Inr:
  "num_val total_length \<noteq> 0 \<Longrightarrow>
   \<exists>e'. advance total_length e l = Inr e' \<and>
        e' = py_min (py_add e (py_round3
               (py_mul (PyFloat (truediv_val l total_length)) (PyInt 100)))) (PyInt 100)"
  by (simp add: advance_def py_truediv_def)

lemma advance_val:
  assumes "advance total_length e l = Inr e'"
  shows "\<exists>q. py_truediv l total_length = Inr q \<and>
             e' = py_min (py_add e (py_round3 (py_mul q (PyInt 100)))) (PyInt 100)"
  using assms by (auto simp: advance_def split: sum.splits)

text \<open>
  What the loop keeps true of \<open>end_percent\<close>: it is a float, or an \<open>int\<close> that converts
  exactly, between 0 and 100.
\<close>

lemma advance_step:
  assumes adv: "advance total_length e l = Inr e'"
    and e: "0 \<le> num_val e" "num_val e \<le> 100" "fl (num_val e) = num_val e"
    and l: "0 \<le> num_val l" and t: "0 \<le> num_val total_length"
  shows "num_val e \<le> num_val e' \<and> num_val e' \<le> 100 \<and> fl (num_val e') = num_val e'"
proof -
  from adv have nz: "num_val total_length \<noteq> 0"
    using advance_zero[of total_length e l] by auto
  let ?q = "truediv_val l total_length"
  let ?p = "fl (?q * fl 100)"
  let ?r = "fl (round3 ?p)"
  let ?v = "fl (num_val e + ?r)"
  from truediv_val_nonneg[OF l t] have q: "0 \<le> ?q" .
  then have "0 \<le> ?q * fl 100" by (simp add: fl_100)
  then have p: "0 \<le> ?p" by (rule fl_nonneg)
  then have "0 \<le> round3 ?p" by (rule round3_nonneg)
  then have r: "0 \<le> ?r" by (rule fl_nonneg)
  have tf: "to_float e = num_val e" using e(3) by (cases e) simp_all
  have sum: "py_add e (py_round3 (py_mul (PyFloat ?q) (PyInt 100))) = PyFloat ?v"
    using e(3) by (cases e) simp_all
  from advance_Inr[OF nz, of e l] obtain e'' where
    a: "advance total_length e l = Inr e''" and
    b: "e'' = py_min (py_add e (py_round3 (py_mul (PyFloat ?q) (PyInt 100)))) (PyInt 100)"
    by blast
  from a adv have "e'' = e'" by simp
  with b have e': "e' = py_min (PyFloat ?v) (PyInt 100)" by (simp only: sum)
  from e(1) r have le: "num_val e \<le> num_val e + ?r" and nn: "0 \<le> num_val e + ?r" by simp_all
  from fl_mono[OF e(1) le] e(3) have ge: "num_val e \<le> ?v" by simp
  from fl_idem[OF nn] have idem: "fl ?v = ?v" .
  show ?thesis
  proof (cases "100 < ?v")
    case True
    then have "e' = PyInt 100" by (simp add: e' py_min_def)
    with e(2) show ?thesis by (simp add: fl_100)
  next
    case False
    then have "e' = PyFloat ?v" by (simp add: e' py_min_def)
    with False ge idem show ?thesis by simp
  qed
qed

lemma timeline_total: "num_val total_length \<noteq> 0 \<Longrightarrow> \<exists>al. timeline total_length e ls = Inr al"
proof (induction ls arbitrary: e)
  case Nil
  show ?case by simp
next
  case (Cons l ls)
  from advance_Inr[OF Cons.prems, of e l] obtain e' where "advance total_length e l = Inr e'"
    by blast
  moreover from Cons.IH[OF Cons.prems, of e'] obtain al where "timeline total_length e' ls = Inr al"
    by blast
  ultimately show ?case by simp
qed

lemma timeline_length: "timeline total_length e ls = Inr al \<Longrightarrow> length al = length ls"
  by (induction ls arbitrary: e al) (auto split: sum.splits)

lemma timeline_start:
  "timeline total_length e ls = Inr al \<Longrightarrow> i < length al \<Longrightarrow>
   fst (al ! i) = (if i = 0 then e else snd (al ! (i - 1)))"
proof (induction ls arbitrary: e al i)
  case Nil
  then show ?case by simp
next
  case (Cons l ls)
  from Cons.prems(1) obtain e' rest where
    adv: "advance total_length e l = Inr e'" and
    rest: "timeline total_length e' ls = Inr rest" and
    al: "al = (e, e') # rest"
    by (auto split: sum.splits)
  show ?case
  proof (cases i)
    case 0
    then show ?thesis by (simp add: al)
  next
    case (Suc j)
    with Cons.prems(2) al have j: "j < length rest" by simp
    from Cons.IH[OF rest j] show ?thesis
      by (cases j) (simp_all add: al Suc)
  qed
qed

lemma timeline_step:
  "timeline total_length e ls = Inr al \<Longrightarrow> i < length al \<Longrightarrow>
   advance total_length (fst (al ! i)) (ls ! i) = Inr (snd (al ! i))"
proof (induction ls arbitrary: e al i)
  case Nil
  then show ?case by simp
next
  case (Cons l ls)
  from Cons.prems(1) obtain e' rest where
    adv: "advance total_length e l = Inr e'" and
    rest: "timeline total_length e' ls = Inr rest" and
    al: "al = (e, e') # rest"
    by (auto split: sum.splits)
  show ?case
  proof (cases i)
    case 0
    then show ?thesis by (simp add: al adv)
  next
    case (Suc j)
    with Cons.prems(2) al have j: "j < length rest" by simp
    from Cons.IH[OF rest j] show ?thesis by (simp add: al Suc)
  qed
qed

lemma timeline_zero_total:
  "num_val total_length = 0 \<Longrightarrow> ls \<noteq> [] \<Longrightarrow> timeline total_length e ls = Inl ZeroDivisionError"
  by (cases ls) (simp_all add: advance_zero)

lemma timeline_mono_step:
  assumes "timeline total_length e ls = Inr al" and "i < length al"
    and "\<forall>l\<in>set ls. 0 \<le> num_val l" and "0 \<le> num_val total_length"
    and "0 \<le> num_val e" and "num_val e \<le> 100" and "fl (num_val e) = num_val e"
  shows "num_val (fst (al ! i)) \<le> num_val (snd (al ! i)) \<and> num_val (snd (al ! i)) \<le> 100"
  using assms
proof (induction ls arbitrary: e al i)
  case Nil
  then show ?case by simp
next
  case (Cons l ls)
  from Cons.prems(1) obtain e' rest where
    adv: "advance total_length e l = Inr e'" and
    rest: "timeline total_length e' ls = Inr rest" and
    al: "al = (e, e') # rest"
    by (auto split: sum.splits)
  from Cons.prems(3) have l: "0 \<le> num_val l" and nn: "\<forall>l\<in>set ls. 0 \<le> num_val l" by simp_all
  from advance_step[OF adv Cons.prems(5,6,7) l Cons.prems(4)]
  have st: "num_val e \<le> num_val e'" "num_val e' \<le> 100" "fl (num_val e') = num_val e'"
    by simp_all
  show ?case
  proof (cases i)
    case 0
    then show ?thesis using st by (simp add: al)
  next
    case (Suc j)
    with Cons.prems(2) al have j: "j < length rest" by simp
    from Cons.prems(5) st(1) have e0: "0 \<le> num_val e'" by simp
    from Cons.IH[OF rest j nn Cons.prems(4) e0 st(2,3)] show ?thesis by (simp add: al Suc)
  qed
qed

lemma timeline_ends_mono:
  assumes "timeline total_length e ls = Inr al"
    and "\<forall>l\<in>set ls. 0 \<le> num_val l" and "0 \<le> num_val total_length"
    and "0 \<le> num_val e" and "num_val e \<le> 100" and "fl (num_val e) = num_val e"
    and "i \<le> j" and "j < length al"
  shows "num_val (snd (al ! i)) \<le> num_val (snd (al ! j))"
  using assms(7,8)
proof (induction j)
  case 0
  then show ?case by simp
next
  case (Suc j)
  show ?case
  proof (cases "i = Suc j")
    case True
    then show ?thesis by simp
  next
    case False
    with Suc.prems have ij: "i \<le> j" and j: "j < length al" by simp_all
    from timeline_start[OF assms(1) Suc.prems(2)]
    have "fst (al ! Suc j) = snd (al ! j)" by simp
    with timeline_mono_step[OF assms(1) Suc.prems(2) assms(2,3,4,5,6)]
    have "num_val (snd (al ! j)) \<le> num_val (snd (al ! Suc j))" by simp
    with Suc.IH[OF ij j] show ?thesis by simp
  qed
qed

text \<open>The loop of \<open>add_animation\<close> makes the calls of \<open>animate_path\<close> with the pairs of \<open>timeline\<close>.\<close>

lemma animate_loop_timeline:
  "timeline total_length e (map snd ils) = Inr al \<Longrightarrow>
   animate_loop float_repr to_animate anim_id total_length e ils st =
     animate_all float_repr to_animate anim_id (zip ils al) st"
proof (induction ils arbitrary: e al st)
  case Nil
  then show ?case by simp
next
  case (Cons il ils)
  obtain index l where il: "il = (index, l)" by (cases il)
  from Cons.prems il obtain e' rest where
    adv: "advance total_length e l = Inr e'" and
    rest: "timeline total_length e' (map snd ils) = Inr rest" and
    al: "al = (e, e') # rest"
    by (auto split: sum.splits)
  show ?case
  proof (cases "index < length to_animate")
    case False
    then show ?thesis by (simp add: il al adv)
  next
    case True
    show ?thesis
    proof (cases "animate_path float_repr (to_animate ! index) e e' l l (PyInt 0) anim_id st")
      case (Inl x)
      with True show ?thesis by (simp add: il al adv)
    next
      case (Inr st')
      from Cons.IH[OF rest, of st'] Inr True show ?thesis by (simp add: il al adv)
    qed
  qed
qed

lemma add_animation_timeline:
  assumes "lengths = map (get_animatable_length csplength_path)
                         (filter (\<lambda>element. tag element = addNS ''path'' ''svg'') to_animate)"
    and "lengths \<noteq> []"
    and "timeline (py_sum lengths) (PyInt 0) lengths = Inr al"
  shows "add_animation opts csplength_path float_repr to_animate anim_id st =
           (case animate_all float_repr to_animate anim_id (zip (enumerate 0 lengths) al) st of
              Inl e \<Rightarrow> Inl e
            | Inr st' \<Rightarrow>
                add_or_replace_style_tag anim_id
                  (animation_style_content anim_id (animation_style opts)) st')"
proof -
  from assms(3) have "timeline (py_sum lengths) (PyInt 0) (map snd (enumerate 0 lengths)) = Inr al"
    by simp
  from animate_loop_timeline[OF this]
  have "animate_loop float_repr to_animate anim_id (py_sum lengths) (PyInt 0)
          (enumerate 0 lengths) st =
        animate_all float_repr to_animate anim_id (zip (enumerate 0 lengths) al) st" .
  with assms(1,2) show ?thesis by (simp add: add_animation_def Let_def)
qed

lemma timeline_example:
  "timeline (py_sum [PyFloat 10, PyFloat 10, PyFloat 5]) (PyInt 0)
     [PyFloat 10, PyFloat 10, PyFloat 5] =
   Inr [(PyInt 0, PyFloat 40), (PyFloat 40, PyFloat 80), (PyFloat 80, PyFloat 100)]"
  by code_simp

text \<open>
  Claim C1, as the code has it. Take the measured lengths of the paths of a layer:
  a non-empty list of non-negative numbers whose total \<open>T\<close>, as \<open>sum\<close> computes it, is
  positive. Then \<open>add_animation\<close> calls \<open>animate_path\<close> once per length, in order, with
  the pairs \<open>(start_percent, end_percent)\<close> of the list \<open>al\<close>, and then adds the shared
  rule. In \<open>al\<close> the first \<open>start_percent\<close> is the integer \<open>0\<close>, every later
  \<open>start_percent\<close> is the \<open>end_percent\<close> before it, every \<open>end_percent\<close> is
  \<open>min(start_percent + round(length / T * 100, 3), 100)\<close> in Python's float arithmetic,
  the \<open>end_percent\<close>s never decrease and never exceed \<open>100\<close>; and the lengths
  \<open>[10, 10, 5]\<close> give \<open>[(0, 40), (40, 80), (80, 100)]\<close>. The positive total is
  needed: with a total of zero the first division raises.
\<close>

theorem timeline_allocation:
  assumes "lengths = map (get_animatable_length csplength_path)
                         (filter (\<lambda>element. tag element = addNS ''path'' ''svg'') to_animate)"
    and "lengths \<noteq> []" and "\<forall>l\<in>set lengths. 0 \<le> num_val l"
    and "0 < num_val (py_sum lengths)"
  shows "\<exists>al. timeline (py_sum lengths) (PyInt 0) lengths = Inr al \<and>
           length al = length lengths \<and>
           add_animation opts csplength_path float_repr to_animate anim_id st =
             (case animate_all float_repr to_animate anim_id (zip (enumerate 0 lengths) al) st of
                Inl e \<Rightarrow> Inl e
              | Inr st' \<Rightarrow>
                  add_or_replace_style_tag anim_id
                    (animation_style_content anim_id (animation_style opts)) st') \<and>
           fst (al ! 0) = PyInt 0 \<and>
           (\<forall>i. Suc i < length al \<longrightarrow> fst (al ! Suc i) = snd (al ! i)) \<and>
           (\<forall>i<length al.
              \<exists>q. py_truediv (lengths ! i) (py_sum lengths) = Inr q \<and>
                  snd (al ! i) =
                    py_min (py_add (fst (al ! i)) (py_round3 (py_mul q (PyInt 100)))) (PyInt 100)) \<and>
           (\<forall>i j. i \<le> j \<and> j < length al \<longrightarrow> num_val (snd (al ! i)) \<le> num_val (snd (al ! j))) \<and>
           (\<forall>i<length al. num_val (snd (al ! i)) \<le> 100) \<and>
           timeline (py_sum [PyFloat 10, PyFloat 10, PyFloat 5]) (PyInt 0)
             [PyFloat 10, PyFloat 10, PyFloat 5] =
           Inr [(PyInt 0, PyFloat 40), (PyFloat 40, PyFloat 80), (PyFloat 80, PyFloat 100)]"
proof -
  let ?T = "py_sum lengths"
  from assms(4) have T: "num_val ?T \<noteq> 0" and T0: "0 \<le> num_val ?T" by simp_all
  from timeline_total[OF T] obtain al where al: "timeline ?T (PyInt 0) lengths = Inr al"
    by blast
  have len: "length al = length lengths" by (rule timeline_length[OF al])
  with assms(2) have pos: "0 < length al" by simp
  note calls = add_animation_timeline[OF assms(1,2) al, of opts float_repr anim_id st]
  have first: "fst (al ! 0) = PyInt 0" using timeline_start[OF al pos] by simp
  have chain: "\<forall>i. Suc i < length al \<longrightarrow> fst (al ! Suc i) = snd (al ! i)"
    using timeline_start[OF al] by simp
  have step: "\<forall>i<length al.
      \<exists>q. py_truediv (lengths ! i) ?T = Inr q \<and>
          snd (al ! i) =
            py_min (py_add (fst (al ! i)) (py_round3 (py_mul q (PyInt 100)))) (PyInt 100)"
    using advance_val[OF timeline_step[OF al]] by blast
  have e0: "0 \<le> num_val (PyInt 0)" "num_val (PyInt 0) \<le> 100"
      "fl (num_val (PyInt 0)) = num_val (PyInt 0)"
    by (simp_all add: fl_zero)
  have mono: "\<forall>i j. i \<le> j \<and> j < length al \<longrightarrow> num_val (snd (al ! i)) \<le> num_val (snd (al ! j))"
    using timeline_ends_mono[OF al assms(3) T0 e0] by blast
  have bound: "\<forall>i<length al. num_val (snd (al ! i)) \<le> 100"
    using timeline_mono_step[OF al _ assms(3) T0 e0] by blast
  from al len calls first chain step mono bound timeline_example
  show ?thesis by blast
qed

theorem timeline_allocation_witness:
  "\<exists>al. timeline (py_sum [PyFloat 1, PyFloat 39999]) (PyInt 0) [PyFloat 1, PyFloat 39999] = Inr al \<and>
     length al = 2 \<and> fst (al ! 0) = PyInt 0 \<and> fst (al ! 1) = snd (al ! 0) \<and>
     num_val (snd (al ! 0)) \<le> num_val (snd (al ! 1)) \<and> num_val (snd (al ! 1)) \<le> 100"
proof -
  let ?c = "\<lambda>e. if nid e = 1 then ([[PyFloat 1]], PyFloat 1) else ([[PyFloat 39999]], PyFloat 39999)"
  let ?ta = "[Element 1 (addNS ''path'' ''svg'') [(''id'', ''p1'')] None [],
              Element 2 (addNS ''path'' ''svg'') [(''id'', ''p2'')] None []]"
  have a: "[PyFloat 1, PyFloat 39999] =
      map (get_animatable_length ?c) (filter (\<lambda>element. tag element = addNS ''path'' ''svg'') ?ta)"
    by (simp add: get_animatable_length_def)
  have b: "[PyFloat 1, PyFloat 39999] \<noteq> []" by simp
  have c: "\<forall>l\<in>set [PyFloat 1, PyFloat 39999]. 0 \<le> num_val l" by simp
  have d: "0 < num_val (py_sum [PyFloat 1, PyFloat 39999])" by code_simp
  from timeline_allocation[OF a b c d] obtain al where
    al: "timeline (py_sum [PyFloat 1, PyFloat 39999]) (PyInt 0) [PyFloat 1, PyFloat 39999] = Inr al"
    and len: "length al = length [PyFloat 1, PyFloat 39999]"
    and first: "fst (al ! 0) = PyInt 0"
    and chain: "\<forall>i. Suc i < length al \<longrightarrow> fst (al ! Suc i) = snd (al ! i)"
    and mono: "\<forall>i j. i \<le> j \<and> j < length al \<longrightarrow> num_val (snd (al ! i)) \<le> num_val (snd (al ! j))"
    and bound: "\<forall>i<length al. num_val (snd (al ! i)) \<le> 100"
    by blast
  from len have l2: "length al = 2" by simp
  from chain l2 have ch: "fst (al ! 1) = snd (al ! 0)" by simp
  from mono l2 have mo: "num_val (snd (al ! 0)) \<le> num_val (snd (al ! 1))" by simp
  from bound l2 have bo: "num_val (snd (al ! 1)) \<le> 100" by simp
  from al l2 first ch mo bo show ?thesis by blast
qed

text \<open>
  A single path of length zero: the list is not empty, and no allocation is returned.
\<close>

theorem timeline_zero_total_counterexample:
  "timeline (py_sum [PyFloat 0]) (PyInt 0) [PyFloat 0] = Inl ZeroDivisionError"
  by (simp add: py_sum_def advance_def py_truediv_def fl_zero)

text \<open>
  Two runs in which the rounding of the floats shows. For the lengths \<open>[1, 39999]\<close> the
  product \<open>1 / 40000 * 100\<close> lies just above \<open>0.0025\<close> and is rounded to \<open>0.003\<close>.
  For \<open>[1, 7, 1]\<close> the second \<open>end_percent\<close> is the float above \<open>88.889\<close>, the
  third sum exceeds \<open>100\<close>, and \<open>min\<close> returns the integer \<open>100\<close>.
\<close>

lemma timeline_rounding_example:
  "timeline (py_sum [PyFloat 1, PyFloat 39999]) (PyInt 0) [PyFloat 1, PyFloat 39999] =
     Inr [(PyInt 0, PyFloat (fl (3 / 1000))), (PyFloat (fl (3 / 1000)), PyFloat 100)]"
  by code_simp

lemma timeline_clamp_example:
  "timeline (py_sum [PyFloat 1, PyFloat 7, PyFloat 1]) (PyInt 0) [PyFloat 1, PyFloat 7, PyFloat 1] =
     Inr [(PyInt 0, PyFloat (fl (11111 / 1000))),
          (PyFloat (fl (11111 / 1000)), PyFloat (781875912651047 / 8796093022208)),
          (PyFloat (781875912651047 / 8796093022208), PyInt 100)] \<and>
   fl (88889 / 1000) < 781875912651047 / 8796093022208"
  by code_simp


subsection \<open>The export plan\<close>

lemma export_loop_length_bg:
  "include_background opts \<Longrightarrow> length (export_loop opts ll ps) = length ps"
  by (induction ps) auto

lemma export_loop_length_Suc:
  "length (export_loop opts ll (enumerate (Suc n) xs)) = length xs"
  by (induction xs arbitrary: n) auto

lemma get_export_list_length:
  "length (get_export_list opts ll) =
     (if include_background opts then length ll else length ll - 1)"
  by (cases ll) (simp_all add: get_export_list_def export_loop_length_bg export_loop_length_Suc)

text \<open>
  Claim C4. The planner emits one step per layer when \<open>include_background\<close> is set and
  one step per layer but the first when it is not; so no step for an empty layer list, and
  none for at most one layer without \<open>include_background\<close>. The list is returned, not
  an error.
\<close>

theorem export_count:
  "length (get_export_list opts layer_list) =
     (if include_background opts then length layer_list else length layer_list - 1) \<and>
   get_export_list opts [] = [] \<and>
   (length layer_list \<le> 1 \<and> \<not> include_background opts \<longrightarrow> get_export_list opts layer_list = [])"
proof -
  have "length layer_list \<le> 1 \<and> \<not> include_background opts \<longrightarrow>
        length (get_export_list opts layer_list) = 0"
    by (simp add: get_export_list_length)
  then have small: "length layer_list \<le> 1 \<and> \<not> include_background opts \<longrightarrow>
        get_export_list opts layer_list = []"
    by simp
  have empty: "get_export_list opts [] = []"
    by (simp add: get_export_list_def)
  from small empty get_export_list_length[of opts layer_list] show ?thesis by blast
qed

lemma export_loop_nth:
  "0 < n \<or> include_background opts \<Longrightarrow> k < length xs \<Longrightarrow>
   export_loop opts ll (enumerate n xs) ! k =
     \<lparr>visible_layers = visible_upto ll (n + k),
      file_name = (if enumerate_opt opts then format_03d (n + k + 1) @ ''_'' @ label (xs ! k)
                   else label (xs ! k))\<rparr>"
proof (induction xs arbitrary: n k)
  case Nil
  then show ?case by simp
next
  case (Cons x xs)
  show ?case
  proof (cases k)
    case 0
    with Cons.prems show ?thesis by auto
  next
    case (Suc j)
    with Cons.prems have j: "j < length xs" by simp
    have "0 < Suc n \<or> include_background opts" by simp
    from Cons.IH[OF this j] Cons.prems(1) show ?thesis by (auto simp: Suc)
  qed
qed

lemma get_export_list_nth:
  assumes "k < length (get_export_list opts ll)"
  shows "k + (if include_background opts then 0 else 1) < length ll \<and>
         visible_layers (get_export_list opts ll ! k) =
           visible_upto ll (k + (if include_background opts then 0 else 1))"
proof (cases "include_background opts")
  case True
  with assms have k: "k < length ll" by (simp add: get_export_list_length)
  from export_loop_nth[of 0 opts k ll ll] True k show ?thesis
    by (simp add: get_export_list_def)
next
  case False
  with assms have k: "k < length ll - 1" by (simp add: get_export_list_length)
  then obtain x xs where ll: "ll = x # xs" by (cases ll) auto
  with k have kx: "k < length xs" by simp
  from export_loop_nth[of "Suc 0" opts k xs ll] kx False show ?thesis
    by (simp add: get_export_list_def ll)
qed

lemma visible_upto_eq:
  "visible_upto ll c = {id' (ll ! j) | j. j \<le> c \<and> j < length ll}"
proof -
  have "visible_upto ll c = (\<lambda>p. id' (snd p)) ` {p \<in> set (enumerate 0 ll). fst p \<le> c}"
    by (auto simp: visible_upto_def case_prod_beta)
  also have "\<dots> = {id' (ll ! j) | j. j \<le> c \<and> j < length ll}"
    by (auto simp: in_set_enumerate_eq image_iff) 
  finally show ?thesis .
qed

lemma visible_upto_take: "visible_upto ll c = set (map id' (take (Suc c) ll))"
proof -
  have "set (take (Suc c) ll) = {take (Suc c) ll ! j | j. j < length (take (Suc c) ll)}"
    by (simp add: set_conv_nth)
  also have "\<dots> = {ll ! j | j. j \<le> c \<and> j < length ll}"
    by (intro Collect_cong ex_cong1) (auto simp: less_Suc_eq_le)
  finally show ?thesis by (auto simp: visible_upto_eq)
qed

lemma visible_upto_strict:
  assumes "distinct (map id' ll)" and "Suc c < length ll"
  shows "visible_upto ll c \<subset> visible_upto ll (Suc c)"
proof -
  have sub: "visible_upto ll c \<subseteq> visible_upto ll (Suc c)"
    by (auto simp: visible_upto_eq)
  have inn: "id' (ll ! Suc c) \<in> visible_upto ll (Suc c)"
    using assms(2) by (auto simp: visible_upto_eq)
  have "id' (ll ! Suc c) \<notin> visible_upto ll c"
  proof
    assume "id' (ll ! Suc c) \<in> visible_upto ll c"
    then obtain j where j: "j \<le> c" "j < length ll" "id' (ll ! Suc c) = id' (ll ! j)"
      by (auto simp: visible_upto_eq)
    then have eq: "map id' ll ! Suc c = map id' ll ! j" using assms(2) by simp
    have "(map id' ll ! Suc c = map id' ll ! j) = (Suc c = j)"
      using assms j(2) by (intro nth_eq_iff_index_eq) simp_all
    with eq have "Suc c = j" by blast
    with j show False by simp
  qed
  with sub inn show ?thesis by blast
qed

text \<open>
  Claim C5. The \<open>k\<close>-th emitted step belongs to source layer \<open>i = k\<close>, or \<open>i = k + 1\<close>
  when the first layer is skipped. Its \<open>visible_layers\<close> are the ids of the layers with
  index at most \<open>i\<close>, the ids of a prefix of the layer order, and the next step sees
  strictly more. Layer ids are unique in a document; the strict growth depends on it.
\<close>

theorem export_steps_visible_prefix:
  assumes "distinct (map id' layer_list)"
    and "k < length (get_export_list opts layer_list)"
    and "i = k + (if include_background opts then 0 else 1)"
  shows "i < length layer_list \<and>
         visible_layers (get_export_list opts layer_list ! k) = {id' (layer_list ! j) | j. j \<le> i} \<and>
         visible_layers (get_export_list opts layer_list ! k) = set (map id' (take (Suc i) layer_list)) \<and>
         (Suc k < length (get_export_list opts layer_list) \<longrightarrow>
            visible_layers (get_export_list opts layer_list ! k)
              \<subset> visible_layers (get_export_list opts layer_list ! Suc k))"
proof -
  from get_export_list_nth[OF assms(2)] assms(3)
  have i: "i < length layer_list"
    and vis: "visible_layers (get_export_list opts layer_list ! k) = visible_upto layer_list i"
    by simp_all
  from i have set_eq: "visible_upto layer_list i = {id' (layer_list ! j) | j. j \<le> i}"
    by (auto simp: visible_upto_eq)
  have strict: "visible_layers (get_export_list opts layer_list ! k)
              \<subset> visible_layers (get_export_list opts layer_list ! Suc k)"
    if sk: "Suc k < length (get_export_list opts layer_list)"
  proof -
    from get_export_list_nth[OF sk] assms(3)
    have si: "Suc i < length layer_list"
      and vis': "visible_layers (get_export_list opts layer_list ! Suc k) = visible_upto layer_list (Suc i)"
      by simp_all
    from visible_upto_strict[OF assms(1) si] vis vis' show ?thesis by simp
  qed
  from i vis set_eq strict visible_upto_take[of layer_list i] show ?thesis by simp
qed

theorem export_count_witness:
  "length (get_export_list
      \<lparr>output_dir = ''out'', prefix = [], enumerate_opt = True, include_background = False,
       animation_style = ''ease''\<rparr>
      [\<lparr>id' = ''L1'', label = ''bg''\<rparr>]) = 0 \<and>
   get_export_list
      \<lparr>output_dir = ''out'', prefix = [], enumerate_opt = True, include_background = False,
       animation_style = ''ease''\<rparr>
      [\<lparr>id' = ''L1'', label = ''bg''\<rparr>] = []"
  using export_count[of
      "\<lparr>output_dir = ''out'', prefix = [], enumerate_opt = True, include_background = False,
       animation_style = ''ease''\<rparr>"
      "[\<lparr>id' = ''L1'', label = ''bg''\<rparr>]"]
  by simp

lemma format_03d_examples:
  "format_03d (Suc (Suc 0)) = ''002''" "format_03d (Suc (Suc (Suc 0))) = ''003''"
  by code_simp+

text \<open>
  The example of the planner: three layers, no background step, enumerated names.
\<close>

lemma export_list_example:
  "get_export_list
      \<lparr>output_dir = ''out'', prefix = [], enumerate_opt = True, include_background = False,
       animation_style = ''ease''\<rparr>
      [\<lparr>id' = ''L1'', label = ''bg''\<rparr>, \<lparr>id' = ''L2'', label = ''sky''\<rparr>,
       \<lparr>id' = ''L3'', label = ''bird''\<rparr>] =
   [\<lparr>visible_layers = {''L1'', ''L2''}, file_name = ''002_sky''\<rparr>,
    \<lparr>visible_layers = {''L1'', ''L2'', ''L3''}, file_name = ''003_bird''\<rparr>]"
  by (simp add: get_export_list_def visible_upto_def format_03d_examples insert_commute)

theorem export_steps_visible_prefix_witness:
  "visible_layers (get_export_list
      \<lparr>output_dir = ''out'', prefix = [], enumerate_opt = True, include_background = False,
       animation_style = ''ease''\<rparr>
      [\<lparr>id' = ''L1'', label = ''bg''\<rparr>, \<lparr>id' = ''L2'', label = ''sky''\<rparr>,
       \<lparr>id' = ''L3'', label = ''bird''\<rparr>] ! 0) = {''L1'', ''L2''} \<and>
   visible_layers (get_export_list
      \<lparr>output_dir = ''out'', prefix = [], enumerate_opt = True, include_background = False,
       animation_style = ''ease''\<rparr>
      [\<lparr>id' = ''L1'', label = ''bg''\<rparr>, \<lparr>id' = ''L2'', label = ''sky''\<rparr>,
       \<lparr>id' = ''L3'', label = ''bird''\<rparr>] ! 0)
   \<subset> visible_layers (get_export_list
      \<lparr>output_dir = ''out'', prefix = [], enumerate_opt = True, include_background = False,
       animation_style = ''ease''\<rparr>
      [\<lparr>id' = ''L1'', label = ''bg''\<rparr>, \<lparr>id' = ''L2'', label = ''sky''\<rparr>,
       \<lparr>id' = ''L3'', label = ''bird''\<rparr>] ! Suc 0)"
proof -
  let ?o = "\<lparr>output_dir = ''out'', prefix = [], enumerate_opt = True, include_background = False,
       animation_style = ''ease''\<rparr>"
  let ?ll = "[\<lparr>id' = ''L1'', label = ''bg''\<rparr>, \<lparr>id' = ''L2'', label = ''sky''\<rparr>,
       \<lparr>id' = ''L3'', label = ''bird''\<rparr>]"
  have d: "distinct (map id' ?ll)" by simp
  have len: "length (get_export_list ?o ?ll) = 2" by (simp add: get_export_list_def)
  have k: "0 < length (get_export_list ?o ?ll)" by (simp add: len)
  have i: "Suc 0 = 0 + (if include_background ?o then 0 else 1)" by simp
  have sk: "Suc 0 < length (get_export_list ?o ?ll)" by (simp add: len)
  note t = export_steps_visible_prefix[OF d k i]
  from t have a: "visible_layers (get_export_list ?o ?ll ! 0) =
      set (map id' (take (Suc (Suc 0)) ?ll))"
    by blast
  from t sk have b: "visible_layers (get_export_list ?o ?ll ! 0)
      \<subset> visible_layers (get_export_list ?o ?ll ! Suc 0)"
    by blast
  from a have "visible_layers (get_export_list ?o ?ll ! 0) = {''L1'', ''L2''}" by simp
  with b show ?thesis by blast
qed

lemma foldl_py_max2_mem: "foldl py_max2 m ms \<in> set (m # ms)"
  by (induction ms arbitrary: m) (auto simp: py_max2_def)

lemma foldl_py_max2_ge_init: "num_val m \<le> num_val (foldl py_max2 m ms)"
proof (induction ms arbitrary: m)
  case Nil
  show ?case by simp
next
  case (Cons y ms)
  have "num_val m \<le> num_val (py_max2 m y)" by (simp add: py_max2_def)
  also have "\<dots> \<le> num_val (foldl py_max2 (py_max2 m y) ms)" by (rule Cons.IH)
  finally show ?case by simp
qed

lemma foldl_py_max2_ge: "y \<in> set (m # ms) \<Longrightarrow> num_val y \<le> num_val (foldl py_max2 m ms)"
proof (induction ms arbitrary: m)
  case Nil
  then show ?case by simp
next
  case (Cons z ms)
  have step: "num_val m \<le> num_val (py_max2 m z)" "num_val z \<le> num_val (py_max2 m z)"
    by (simp_all add: py_max2_def)
  from Cons.prems consider "y = m" | "y = z" | "y \<in> set ms" by auto
  then show ?case
  proof cases
    case 1
    with step(1) foldl_py_max2_ge_init[of "py_max2 m z" ms] show ?thesis by simp
  next
    case 2
    with step(2) foldl_py_max2_ge_init[of "py_max2 m z" ms] show ?thesis by simp
  next
    case 3
    then have "y \<in> set (py_max2 m z # ms)" by simp
    from Cons.IH[OF this] show ?thesis by simp
  qed
qed

text \<open>
  Claim C3. For a path with one sub-path the animatable length is the total arc length the
  geometry service reports. For a path with several sub-paths it is the length of one of
  the sub-paths, and no sub-path is longer: the maximum, not the sum. Sub-paths of lengths
  3, 7 and 2 (total 12) give 7.
\<close>

theorem animatable_length_max_subpath:
  assumes "csplength_path elem = (subpath_lengths, path_length)"
  shows "(length subpath_lengths = 1 \<longrightarrow>
            get_animatable_length csplength_path elem = path_length) \<and>
         (1 < length subpath_lengths \<longrightarrow>
            get_animatable_length csplength_path elem \<in> set (map py_sum subpath_lengths) \<and>
            (\<forall>s\<in>set subpath_lengths.
               num_val (py_sum s) \<le> num_val (get_animatable_length csplength_path elem))) \<and>
         get_animatable_length
           (\<lambda>e. ([[PyFloat 3], [PyFloat 7], [PyFloat 2]], PyFloat 12)) elem = PyFloat 7"
proof -
  have one: "get_animatable_length csplength_path elem = path_length"
    if "length subpath_lengths = 1"
    using that assms by (simp add: get_animatable_length_def)
  have many: "get_animatable_length csplength_path elem \<in> set (map py_sum subpath_lengths) \<and>
            (\<forall>s\<in>set subpath_lengths.
               num_val (py_sum s) \<le> num_val (get_animatable_length csplength_path elem))"
    if gt: "1 < length subpath_lengths"
  proof -
    from gt obtain s ss where sl: "subpath_lengths = s # ss" by (cases subpath_lengths) auto
    with gt assms have r: "get_animatable_length csplength_path elem =
        foldl py_max2 (py_sum s) (map py_sum ss)"
      by (simp add: get_animatable_length_def)
    have mem: "foldl py_max2 (py_sum s) (map py_sum ss) \<in> set (map py_sum subpath_lengths)"
      using foldl_py_max2_mem[of "py_sum s" "map py_sum ss"] by (simp add: sl)
    have ge: "\<forall>t\<in>set subpath_lengths.
        num_val (py_sum t) \<le> num_val (foldl py_max2 (py_sum s) (map py_sum ss))"
    proof
      fix t assume "t \<in> set subpath_lengths"
      then have "py_sum t \<in> set (py_sum s # map py_sum ss)" by (auto simp: sl)
      then show "num_val (py_sum t) \<le> num_val (foldl py_max2 (py_sum s) (map py_sum ss))"
        by (rule foldl_py_max2_ge)
    qed
    from r mem ge show ?thesis by simp
  qed
  have ex: "get_animatable_length
           (\<lambda>e. ([[PyFloat 3], [PyFloat 7], [PyFloat 2]], PyFloat 12)) elem = PyFloat 7"
    by code_simp
  from one many ex show ?thesis by blast
qed

theorem animatable_length_max_subpath_witness:
  "get_animatable_length (\<lambda>e. ([[PyFloat 4, PyFloat 1]], PyFloat 5)) (Element 0 [] [] None [])
     = PyFloat 5 \<and>
   get_animatable_length (\<lambda>e. ([[PyFloat 1, PyFloat 2], [PyFloat 3, PyFloat 4], [PyFloat 2]], PyFloat 12)) (Element 0 [] [] None [])
     \<in> {PyFloat 3, PyFloat 7, PyFloat 2} \<and>
   num_val (py_sum [PyFloat 3, PyFloat 4]) \<le> num_val (get_animatable_length (\<lambda>e. ([[PyFloat 1, PyFloat 2], [PyFloat 3, PyFloat 4], [PyFloat 2]], PyFloat 12)) (Element 0 [] [] None []))"
proof -
  have a: "(\<lambda>e. ([[PyFloat 4, PyFloat 1]], PyFloat 5)) (Element 0 [] [] None []) = ([[PyFloat 4, PyFloat 1]], PyFloat 5)"
    by simp
  have b: "(\<lambda>e. ([[PyFloat 1, PyFloat 2], [PyFloat 3, PyFloat 4], [PyFloat 2]], PyFloat 12)) (Element 0 [] [] None [])
     = ([[PyFloat 1, PyFloat 2], [PyFloat 3, PyFloat 4], [PyFloat 2]], PyFloat 12)"
    by simp
  have s: "map py_sum [[PyFloat 1, PyFloat 2], [PyFloat 3, PyFloat 4], [PyFloat 2]] =
      [PyFloat 3, PyFloat 7, PyFloat 2]"
    by code_simp
  from animatable_length_max_subpath[OF a]
  have w1: "get_animatable_length (\<lambda>e. ([[PyFloat 4, PyFloat 1]], PyFloat 5))
      (Element 0 [] [] None []) = PyFloat 5"
    by simp
  from animatable_length_max_subpath[OF b]
  have w2: "get_animatable_length
      (\<lambda>e. ([[PyFloat 1, PyFloat 2], [PyFloat 3, PyFloat 4], [PyFloat 2]], PyFloat 12))
      (Element 0 [] [] None [])
      \<in> set (map py_sum [[PyFloat 1, PyFloat 2], [PyFloat 3, PyFloat 4], [PyFloat 2]])"
    and w3: "\<forall>s\<in>set [[PyFloat 1, PyFloat 2], [PyFloat 3, PyFloat 4], [PyFloat 2]].
      num_val (py_sum s) \<le> num_val (get_animatable_length
        (\<lambda>e. ([[PyFloat 1, PyFloat 2], [PyFloat 3, PyFloat 4], [PyFloat 2]], PyFloat 12))
        (Element 0 [] [] None []))"
    by simp_all
  from w2 have w2': "get_animatable_length
      (\<lambda>e. ([[PyFloat 1, PyFloat 2], [PyFloat 3, PyFloat 4], [PyFloat 2]], PyFloat 12))
      (Element 0 [] [] None []) \<in> {PyFloat 3, PyFloat 7, PyFloat 2}"
    by (simp only: s) simp
  from w3 have w3': "num_val (py_sum [PyFloat 3, PyFloat 4]) \<le> num_val (get_animatable_length
        (\<lambda>e. ([[PyFloat 1, PyFloat 2], [PyFloat 3, PyFloat 4], [PyFloat 2]], PyFloat 12))
        (Element 0 [] [] None []))"
    by simp
  show ?thesis by (rule conjI[OF w1 conjI[OF w2' w3']])
qed

subsection \<open>The style rules\<close>

lemma svg_style_not_bare: "addNS ''style'' ''svg'' \<noteq> ''style''"
  by (simp add: addNS_def NSS_def)

lemma foldl_max_init: "(b::nat) \<le> foldl max b ys"
proof (induction ys arbitrary: b)
  case Nil
  show ?case by simp
next
  case (Cons y ys)
  have "b \<le> max b y" by simp
  also have "\<dots> \<le> foldl max (max b y) ys" by (rule Cons.IH)
  finally show ?case by simp
qed

lemma foldl_max_ge: "(x::nat) \<in> set xs \<Longrightarrow> x \<le> foldl max a xs"
proof (induction xs arbitrary: a)
  case Nil
  then show ?case by simp
next
  case (Cons y ys)
  from Cons.prems consider "x = y" | "x \<in> set ys" by auto
  then show ?case
  proof cases
    case 1
    have "y \<le> max a y" by simp
    also have "\<dots> \<le> foldl max (max a y) ys" by (rule foldl_max_init)
    finally show ?thesis using 1 by simp
  next
    case 2
    from Cons.IH[OF 2] show ?thesis by simp
  qed
qed

lemma nid_less_fresh: "e \<in> set (iter_elems r) \<Longrightarrow> nid e < fresh_nid r"
proof -
  assume "e \<in> set (iter_elems r)"
  then have "nid e \<in> set (map nid (iter_elems r))" by simp
  from foldl_max_ge[OF this] show ?thesis by (simp add: fresh_nid_def less_Suc_eq_le)
qed

lemma iter_elems_self: "r \<in> set (iter_elems r)"
  by (cases r) simp

lemma iter_elems_child: "c \<in> set (children r) \<Longrightarrow> e \<in> set (iter_elems c) \<Longrightarrow> e \<in> set (iter_elems r)"
  by (cases r) auto

lemma iter_elems_cases:
  "e \<in> set (iter_elems r) \<Longrightarrow> e = r \<or> (\<exists>c\<in>set (children r). e \<in> set (iter_elems c))"
  by (cases r) auto

lemma find_Some_mem: "find P xs = Some x \<Longrightarrow> x \<in> set xs"
  by (induction xs) (auto split: if_splits)

lemma find_Some_holds: "find P xs = Some x \<Longrightarrow> P x"
  by (induction xs) (auto split: if_splits)

lemma add_or_replace_unfold:
  "add_or_replace_style_tag tag_id content st =
     (case find (\<lambda>t. get_attr t ''id'' = Some tag_id)
             (filter (\<lambda>e. tag e = addNS ''style'' ''svg'') (iter_elems (document st))) of
        None \<Rightarrow>
          Inr (st\<lparr>document := append_style (fresh_nid (document st)) tag_id content (document st)\<rparr>)
      | Some t \<Rightarrow>
          (case remove_child t (document st) of
             Inl e \<Rightarrow> Inl e
           | Inr r \<Rightarrow>
               Inr (st\<lparr>document := append_style (fresh_nid (document st)) tag_id content r\<rparr>)))"
  unfolding add_or_replace_style_tag_def Let_def
  by (simp split: option.split)

lemma remove_child_Inr:
  "remove_child t r = Inr r' \<Longrightarrow>
   nid r' = nid r \<and> children r' = filter (\<lambda>c. nid c \<noteq> nid t) (children r)"
  by (auto simp: remove_child_def split: if_splits)

lemma remove_child_err: "remove_child t r = Inl e \<Longrightarrow> e = ValueError"
  by (auto simp: remove_child_def split: if_splits)

lemma children_append_style:
  "children (append_style n tag_id content r) =
     children r @ [Element n ''style'' [(''id'', tag_id)] (Some content) []]"
  by (simp add: append_style_def)

lemma nid_append_style: "nid (append_style n tag_id content r) = nid r"
  by (simp add: append_style_def)

lemma add_or_replace_err: "add_or_replace_style_tag tag_id content st = Inl e \<Longrightarrow> e = ValueError"
  by (auto simp: add_or_replace_unfold split: option.splits sum.splits dest: remove_child_err)

text \<open>What a successful call leaves: the root it appended to, and which children that root kept.\<close>

lemma add_or_replace_Inr:
  assumes "add_or_replace_style_tag tag_id content st = Inr st'"
  shows "\<exists>r. st' = st\<lparr>document := append_style (fresh_nid (document st)) tag_id content r\<rparr> \<and>
           nid r = nid (document st) \<and>
           (children r = children (document st) \<or>
            (\<exists>t\<in>set (iter_elems (document st)). tag t = addNS ''style'' ''svg'' \<and>
               children r = filter (\<lambda>c. nid c \<noteq> nid t) (children (document st))))"
proof (cases "find (\<lambda>t. get_attr t ''id'' = Some tag_id)
                (filter (\<lambda>e. tag e = addNS ''style'' ''svg'') (iter_elems (document st)))")
  case None
  with assms
  have "st' = st\<lparr>document := append_style (fresh_nid (document st)) tag_id content (document st)\<rparr>"
    by (simp add: add_or_replace_unfold)
  then show ?thesis by blast
next
  case (Some t)
  then have "t \<in> set (filter (\<lambda>e. tag e = addNS ''style'' ''svg'') (iter_elems (document st)))"
    by (rule find_Some_mem)
  then have t: "t \<in> set (iter_elems (document st))" "tag t = addNS ''style'' ''svg''"
    by simp_all
  from Some assms obtain r where r: "remove_child t (document st) = Inr r"
    and st': "st' = st\<lparr>document := append_style (fresh_nid (document st)) tag_id content r\<rparr>"
    by (auto simp: add_or_replace_unfold split: sum.splits)
  from remove_child_Inr[OF r] t st' show ?thesis by blast
qed

lemma add_or_replace_kept_children:
  assumes "add_or_replace_style_tag tag_id content st = Inr st'"
  shows "\<exists>r. st' = st\<lparr>document := append_style (fresh_nid (document st)) tag_id content r\<rparr> \<and>
           nid r = nid (document st) \<and> set (children r) \<subseteq> set (children (document st))"
  using add_or_replace_Inr[OF assms] by auto

text \<open>A node in the SVG namespace that the next call finds is not the element just appended.\<close>

lemma style_survives:
  assumes "tag t = addNS ''style'' ''svg''"
    and "t \<in> set (iter_elems (append_style (fresh_nid d) tag_id content r))"
    and "nid r = nid d" and "set (children r) \<subseteq> set (children d)"
  shows "nid t \<noteq> fresh_nid d"
proof -
  let ?new = "Element (fresh_nid d) ''style'' [(''id'', tag_id)] (Some content) []"
  from iter_elems_cases[OF assms(2)]
  consider "t = append_style (fresh_nid d) tag_id content r"
    | c where "c \<in> set (children r)" "t \<in> set (iter_elems c)"
    | "t \<in> set (iter_elems ?new)"
    by (auto simp: children_append_style)
  then show ?thesis
  proof cases
    case 1
    then have "nid t = nid d" by (simp add: nid_append_style assms(3))
    with nid_less_fresh[OF iter_elems_self[of d]] show ?thesis by simp
  next
    case 2
    from 2(1) assms(4) have "c \<in> set (children d)" by blast
    from nid_less_fresh[OF iter_elems_child[OF this 2(2)]] show ?thesis by simp
  next
    case 3
    then have "t = ?new" by simp
    with assms(1) svg_style_not_bare show ?thesis by simp
  qed
qed

text \<open>
  Claim C6, on the code. Two successive insertions under one id, both successful, leave
  two rules with that id among the children of the root: the one with the first content
  and the one with the second. The search for the old rule looks for \<open>style\<close> in the SVG
  namespace, and the element a call appends has the bare tag \<open>style\<close>, so the second
  call does not find what the first one added.
\<close>

theorem style_tag_inserted_twice:
  assumes "add_or_replace_style_tag tag_id c1 st = Inr st1"
    and "add_or_replace_style_tag tag_id c2 st1 = Inr st2"
  shows "\<exists>n1 n2. n1 \<noteq> n2 \<and>
           Element n1 ''style'' [(''id'', tag_id)] (Some c1) [] \<in> set (children (document st2)) \<and>
           Element n2 ''style'' [(''id'', tag_id)] (Some c2) [] \<in> set (children (document st2))"
proof -
  let ?n1 = "fresh_nid (document st)"
  let ?n2 = "fresh_nid (document st1)"
  from add_or_replace_kept_children[OF assms(1)] obtain r1 where
    s1: "st1 = st\<lparr>document := append_style ?n1 tag_id c1 r1\<rparr>" and
    r1: "nid r1 = nid (document st)" "set (children r1) \<subseteq> set (children (document st))"
    by blast
  from s1 have d1: "document st1 = append_style ?n1 tag_id c1 r1" by simp
  let ?new1 = "Element ?n1 ''style'' [(''id'', tag_id)] (Some c1) []"
  have in1: "?new1 \<in> set (children (document st1))"
    by (simp add: d1 children_append_style)
  from add_or_replace_Inr[OF assms(2)] obtain r2 where
    s2: "st2 = st1\<lparr>document := append_style ?n2 tag_id c2 r2\<rparr>" and
    c2: "children r2 = children (document st1) \<or>
            (\<exists>t\<in>set (iter_elems (document st1)). tag t = addNS ''style'' ''svg'' \<and>
               children r2 = filter (\<lambda>c. nid c \<noteq> nid t) (children (document st1)))"
    by blast
  from s2 have d2: "document st2 = append_style ?n2 tag_id c2 r2" by simp
  have in2: "?new1 \<in> set (children r2)"
  proof -
    from c2 consider "children r2 = children (document st1)"
      | t where "t \<in> set (iter_elems (document st1))" "tag t = addNS ''style'' ''svg''"
          "children r2 = filter (\<lambda>c. nid c \<noteq> nid t) (children (document st1))"
      by blast
    then show ?thesis
    proof cases
      case 1
      with in1 show ?thesis by simp
    next
      case 2
      from 2(1) have "t \<in> set (iter_elems (append_style ?n1 tag_id c1 r1))" by (simp add: d1)
      from style_survives[OF 2(2) this r1] have "nid t \<noteq> ?n1" .
      with in1 2(3) show ?thesis by simp
    qed
  qed
  let ?new2 = "Element ?n2 ''style'' [(''id'', tag_id)] (Some c2) []"
  have "?new1 \<in> set (iter_elems (document st1))"
    using iter_elems_child[OF in1 iter_elems_self] by simp
  from nid_less_fresh[OF this] have ne: "?n1 \<noteq> ?n2" by simp
  from in2 have a: "?new1 \<in> set (children (document st2))"
    by (simp add: d2 children_append_style)
  have b: "?new2 \<in> set (children (document st2))"
    by (simp add: d2 children_append_style)
  from ne a b show ?thesis by blast
qed

theorem style_tag_inserted_twice_witness:
  "\<exists>st2. add_or_replace_style_tag ''X'' ''b''
        \<lparr>document = Element 0 (addNS ''svg'' ''svg'') [] None
                      [Element 1 ''style'' [(''id'', ''X'')] (Some ''a'') []],
         messages = [], files = []\<rparr> = Inr st2 \<and>
     children (document st2) =
       [Element 1 ''style'' [(''id'', ''X'')] (Some ''a'') [],
        Element 2 ''style'' [(''id'', ''X'')] (Some ''b'') []]"
proof -
  let ?st0 = "\<lparr>document = Element 0 (addNS ''svg'' ''svg'') [] None [], messages = [], files = []\<rparr>"
  let ?st1 = "\<lparr>document = Element 0 (addNS ''svg'' ''svg'') [] None
                      [Element 1 ''style'' [(''id'', ''X'')] (Some ''a'') []],
         messages = [], files = []\<rparr>"
  let ?st2 = "\<lparr>document = Element 0 (addNS ''svg'' ''svg'') [] None
                      [Element 1 ''style'' [(''id'', ''X'')] (Some ''a'') [],
                       Element 2 ''style'' [(''id'', ''X'')] (Some ''b'') []],
         messages = [], files = []\<rparr>"
  have a: "add_or_replace_style_tag ''X'' ''a'' ?st0 = Inr ?st1"
    by (simp add: add_or_replace_unfold append_style_def fresh_nid_def addNS_def NSS_def)
  have b: "add_or_replace_style_tag ''X'' ''b'' ?st1 = Inr ?st2"
    by (simp add: add_or_replace_unfold append_style_def fresh_nid_def addNS_def NSS_def)
  from style_tag_inserted_twice[OF a b] b show ?thesis by simp
qed

text \<open>
  A rule in the SVG namespace, as a parsed file holds it, is found and replaced.
\<close>

lemma replace_parsed_style_example:
  "add_or_replace_style_tag ''X'' ''new''
     \<lparr>document = Element 0 (addNS ''svg'' ''svg'') [] None
                   [Element 1 (addNS ''style'' ''svg'') [(''id'', ''X'')] (Some ''old'') []],
      messages = [], files = []\<rparr> =
   Inr \<lparr>document = Element 0 (addNS ''svg'' ''svg'') [] None
                   [Element 2 ''style'' [(''id'', ''X'')] (Some ''new'') []],
        messages = [], files = []\<rparr>"
  by (simp add: add_or_replace_unfold append_style_def remove_child_def fresh_nid_def
      get_attr_def addNS_def NSS_def)

lemma animate_path_err:
  "animate_path fr el s e l sl el' aid st = Inl err \<Longrightarrow> err = ValueError"
  by (auto simp: animate_path_def Let_def split: sum.splits dest: add_or_replace_err)

lemma animate_loop_err:
  "num_val total_length \<noteq> 0 \<Longrightarrow>
   animate_loop fr ta aid total_length e ils st = Inl err \<Longrightarrow> err \<noteq> ZeroDivisionError"
proof (induction ils arbitrary: e st)
  case Nil
  then show ?case by simp
next
  case (Cons il ils)
  obtain index l where il: "il = (index, l)" by (cases il)
  from advance_Inr[OF Cons.prems(1), of e l] obtain e' where adv: "advance total_length e l = Inr e'"
    by blast
  show ?case
  proof (cases "index < length ta")
    case False
    with Cons.prems(2) adv il show ?thesis by simp
  next
    case True
    show ?thesis
    proof (cases "animate_path fr (ta ! index) e e' l l (PyInt 0) aid st")
      case (Inl x)
      from animate_path_err[OF Inl] Inl Cons.prems(2) adv il True show ?thesis by simp
    next
      case (Inr st')
      with Cons.prems(2) adv il True
      have "animate_loop fr ta aid total_length e' ils st' = Inl err" by simp
      from Cons.IH[OF Cons.prems(1) this] show ?thesis .
    qed
  qed
qed

lemma animate_loop_zero:
  "num_val total_length = 0 \<Longrightarrow> ils \<noteq> [] \<Longrightarrow>
   animate_loop fr ta aid total_length e ils st = Inl ZeroDivisionError"
proof -
  assume z: "num_val total_length = 0" and ne: "ils \<noteq> []"
  then obtain index l rest where "ils = (index, l) # rest" by (cases ils) auto
  with advance_zero[OF z, of e l] show ?thesis by simp
qed

text \<open>
  Claim C10. A layer whose single path has length zero makes \<open>add_animation\<close> raise
  \<open>ZeroDivisionError\<close>; so does every non-empty list of lengths with total zero. With a
  positive total \<open>add_animation\<close> does not raise \<open>ZeroDivisionError\<close>, and the
  allocation loop returns its pairs.
\<close>

theorem add_animation_division:
  assumes "lengths = map (get_animatable_length csplength_path)
                         (filter (\<lambda>element. tag element = addNS ''path'' ''svg'') to_animate)"
  shows "add_animation opts (\<lambda>e. ([[]], PyInt 0)) float_repr
           [Element 2 (addNS ''path'' ''svg'') [(''id'', ''p1'')] None []] anim_id st
           = Inl ZeroDivisionError \<and>
         (lengths \<noteq> [] \<and> num_val (py_sum lengths) = 0 \<longrightarrow>
            add_animation opts csplength_path float_repr to_animate anim_id st
              = Inl ZeroDivisionError) \<and>
         (0 < num_val (py_sum lengths) \<longrightarrow>
            add_animation opts csplength_path float_repr to_animate anim_id st
              \<noteq> Inl ZeroDivisionError \<and>
            (\<exists>al. timeline (py_sum lengths) (PyInt 0) lengths = Inr al))"
proof -
  have ex: "add_animation opts (\<lambda>e. ([[]], PyInt 0)) float_repr
           [Element 2 (addNS ''path'' ''svg'') [(''id'', ''p1'')] None []] anim_id st
           = Inl ZeroDivisionError"
    by (simp add: add_animation_def get_animatable_length_def py_sum_def advance_def
        py_truediv_def)
  have zero: "add_animation opts csplength_path float_repr to_animate anim_id st
              = Inl ZeroDivisionError"
    if "lengths \<noteq> []" and z: "num_val (py_sum lengths) = 0"
  proof -
    from that(1) have "enumerate 0 lengths \<noteq> []" by (cases lengths) simp_all
    from animate_loop_zero[OF z this] that(1) assms show ?thesis
      by (simp add: add_animation_def Let_def)
  qed
  have pos: "add_animation opts csplength_path float_repr to_animate anim_id st
              \<noteq> Inl ZeroDivisionError \<and>
            (\<exists>al. timeline (py_sum lengths) (PyInt 0) lengths = Inr al)"
    if p: "0 < num_val (py_sum lengths)"
  proof -
    from p have nz: "num_val (py_sum lengths) \<noteq> 0" by simp
    from p have ne: "lengths \<noteq> []" by (auto simp: py_sum_def)
    have "add_animation opts csplength_path float_repr to_animate anim_id st \<noteq> Inl ZeroDivisionError"
    proof
      assume a: "add_animation opts csplength_path float_repr to_animate anim_id st = Inl ZeroDivisionError"
      show False
      proof (cases "animate_loop float_repr to_animate anim_id (py_sum lengths) (PyInt 0)
                      (enumerate 0 lengths) st")
        case (Inl err)
        with a ne assms have "err = ZeroDivisionError"
          by (simp add: add_animation_def Let_def)
        with animate_loop_err[OF nz Inl] show False by simp
      next
        case (Inr st')
        with a ne assms have "add_or_replace_style_tag anim_id
            (animation_style_content anim_id (animation_style opts)) st' = Inl ZeroDivisionError"
          by (simp add: add_animation_def Let_def)
        from add_or_replace_err[OF this] show False by simp
      qed
    qed
    with timeline_total[OF nz] show ?thesis by blast
  qed
  from ex zero pos show ?thesis by blast
qed

theorem add_animation_division_witness:
  "add_animation
     \<lparr>output_dir = ''out'', prefix = [], enumerate_opt = False, include_background = False,
      animation_style = ''ease''\<rparr>
     (\<lambda>e. ([[PyFloat 0]], PyFloat 0)) (\<lambda>r. ''f'')
     [Element 2 (addNS ''path'' ''svg'') [(''id'', ''p1'')] None []] ''anim_0''
     \<lparr>document = Element 0 (addNS ''svg'' ''svg'') [] None
                   [Element 2 (addNS ''path'' ''svg'') [(''id'', ''p1'')] None []],
      messages = [], files = []\<rparr>
     = Inl ZeroDivisionError \<and>
   add_animation
     \<lparr>output_dir = ''out'', prefix = [], enumerate_opt = False, include_background = False,
      animation_style = ''ease''\<rparr>
     (\<lambda>e. ([[PyFloat 2]], PyFloat 2)) (\<lambda>r. ''f'')
     [Element 2 (addNS ''path'' ''svg'') [(''id'', ''p1'')] None []] ''anim_0''
     \<lparr>document = Element 0 (addNS ''svg'' ''svg'') [] None
                   [Element 2 (addNS ''path'' ''svg'') [(''id'', ''p1'')] None []],
      messages = [], files = []\<rparr>
     \<noteq> Inl ZeroDivisionError"
proof -
  let ?o = "\<lparr>output_dir = ''out'', prefix = [], enumerate_opt = False, include_background = False,
      animation_style = ''ease''\<rparr>"
  let ?p = "Element 2 (addNS ''path'' ''svg'') [(''id'', ''p1'')] None []"
  let ?st = "\<lparr>document = Element 0 (addNS ''svg'' ''svg'') [] None [?p],
      messages = [], files = []\<rparr>"
  have z: "[PyFloat 0] = map (get_animatable_length (\<lambda>e. ([[PyFloat 0]], PyFloat 0)))
             (filter (\<lambda>element. tag element = addNS ''path'' ''svg'') [?p])"
    by (simp add: get_animatable_length_def)
  have p: "[PyFloat 2] = map (get_animatable_length (\<lambda>e. ([[PyFloat 2]], PyFloat 2)))
             (filter (\<lambda>element. tag element = addNS ''path'' ''svg'') [?p])"
    by (simp add: get_animatable_length_def)
  have zs: "[PyFloat 0] \<noteq> [] \<and> num_val (py_sum [PyFloat 0]) = 0"
    by (simp add: py_sum_def fl_zero)
  have ps: "0 < num_val (py_sum [PyFloat 2])" by code_simp
  from add_animation_division[OF z, of ?o "\<lambda>r. ''f''" "''anim_0''" ?st] zs
  have a: "add_animation ?o (\<lambda>e. ([[PyFloat 0]], PyFloat 0)) (\<lambda>r. ''f'') [?p] ''anim_0'' ?st
      = Inl ZeroDivisionError"
    by blast
  from add_animation_division[OF p, of ?o "\<lambda>r. ''f''" "''anim_0''" ?st] ps
  have b: "add_animation ?o (\<lambda>e. ([[PyFloat 2]], PyFloat 2)) (\<lambda>r. ''f'') [?p] ''anim_0'' ?st
      \<noteq> Inl ZeroDivisionError"
    by blast
  from a b show ?thesis by blast
qed

subsection \<open>The top layer of a step\<close>

text \<open>
  The layer that \<open>effect\<close> takes for the top one is a visible layer, and whichever
  visible layer it is depends on the iteration order of the set alone.
\<close>

lemma top_layer_id_visible:
  assumes "set (set_order (visible_layers export_item)) = visible_layers export_item"
    and "top_layer_id set_order export_item = Inr x"
  shows "x \<in> visible_layers export_item"
proof (cases "set_order (visible_layers export_item)")
  case Nil
  with assms(2) show ?thesis by (simp add: top_layer_id_def)
next
  case (Cons y ys)
  with assms(2) have x: "x = last (y # ys)" by (simp add: top_layer_id_def)
  have "last (y # ys) \<in> set (y # ys)" by (rule last_in_set) simp
  with x have "x \<in> set (set_order (visible_layers export_item))" by (simp only: Cons)
  then show ?thesis by (simp only: assms(1))
qed

lemma top_layer_id_snoc: "top_layer_id (\<lambda>S. xs @ [x]) export_item = Inr x"
  by (cases xs) (simp_all add: top_layer_id_def)

lemma top_layer_any_visible:
  assumes "finite (visible_layers export_item)" and "x \<in> visible_layers export_item"
  shows "\<exists>set_order. set (set_order (visible_layers export_item)) = visible_layers export_item \<and>
           distinct (set_order (visible_layers export_item)) \<and>
           top_layer_id set_order export_item = Inr x"
proof -
  from assms(1) have "finite (visible_layers export_item - {x})" by simp
  from finite_distinct_list[OF this] obtain xs where
    xs: "set xs = visible_layers export_item - {x}" "distinct xs"
    by blast
  from xs assms(2) have a: "set (xs @ [x]) = visible_layers export_item"
    by auto
  from xs have b: "distinct (xs @ [x])" by auto
  show ?thesis
    by (rule exI[of _ "\<lambda>S. xs @ [x]"]) (simp only: a b top_layer_id_snoc simp_thms)
qed

text \<open>
  Claim C2, on the code. Two layers with the first one skipped give one step, with both
  layers visible; the layer with the highest index is \<open>layer2\<close>. When the set iterates
  as \<open>layer2, layer1\<close> the code takes \<open>layer1\<close> for the top layer, and when it
  iterates as \<open>layer1, layer2\<close> it takes \<open>layer2\<close>: the choice follows the iteration
  order of the set, not the index in the layer list.
\<close>

theorem top_layer_follows_set_order:
  "get_export_list
     \<lparr>output_dir = ''out'', prefix = [], enumerate_opt = False, include_background = False,
      animation_style = ''ease''\<rparr>
     [\<lparr>id' = ''layer1'', label = ''bg''\<rparr>, \<lparr>id' = ''layer2'', label = ''sky''\<rparr>] =
     [\<lparr>visible_layers = {''layer1'', ''layer2''}, file_name = ''sky''\<rparr>] \<and>
   top_layer_id (\<lambda>S. filter (\<lambda>x. x \<in> S) [''layer2'', ''layer1''])
     \<lparr>visible_layers = {''layer1'', ''layer2''}, file_name = ''sky''\<rparr> = Inr ''layer1'' \<and>
   top_layer_id (\<lambda>S. filter (\<lambda>x. x \<in> S) [''layer1'', ''layer2''])
     \<lparr>visible_layers = {''layer1'', ''layer2''}, file_name = ''sky''\<rparr> = Inr ''layer2''"
proof -
  have a: "get_export_list
     \<lparr>output_dir = ''out'', prefix = [], enumerate_opt = False, include_background = False,
      animation_style = ''ease''\<rparr>
     [\<lparr>id' = ''layer1'', label = ''bg''\<rparr>, \<lparr>id' = ''layer2'', label = ''sky''\<rparr>] =
     [\<lparr>visible_layers = {''layer1'', ''layer2''}, file_name = ''sky''\<rparr>]"
    by (simp add: get_export_list_def visible_upto_def insert_commute)
  have b: "top_layer_id (\<lambda>S. filter (\<lambda>x. x \<in> S) [''layer2'', ''layer1''])
     \<lparr>visible_layers = {''layer1'', ''layer2''}, file_name = ''sky''\<rparr> = Inr ''layer1''"
    by (simp add: top_layer_id_def)
  have c: "top_layer_id (\<lambda>S. filter (\<lambda>x. x \<in> S) [''layer1'', ''layer2''])
     \<lparr>visible_layers = {''layer1'', ''layer2''}, file_name = ''sky''\<rparr> = Inr ''layer2''"
    by (simp add: top_layer_id_def)
  show ?thesis by (rule conjI[OF a conjI[OF b c]])
qed

theorem top_layer_follows_set_order_witness:
  "top_layer_id (\<lambda>S. filter (\<lambda>x. x \<in> S) [''layer2'', ''layer1''])
     \<lparr>visible_layers = {''layer1'', ''layer2''}, file_name = ''sky''\<rparr> \<noteq> Inr ''layer2''"
proof -
  from top_layer_follows_set_order
  have e: "top_layer_id (\<lambda>S. filter (\<lambda>x. x \<in> S) [''layer2'', ''layer1''])
     \<lparr>visible_layers = {''layer1'', ''layer2''}, file_name = ''sky''\<rparr> = Inr ''layer1''"
    by (rule conjunct1[OF conjunct2])
  show ?thesis unfolding e by simp
qed

subsection \<open>The rule of one path\<close>

lemma str_int_zero: "str_int 0 = ''0''"
  by code_simp

lemma children_update_set_attr_root:
  "children (set_attr k v d) = children d"
  by (cases d) simp

lemma update_elem_leaf_other:
  "n' \<noteq> n \<Longrightarrow> update_elem n f (Element n' t a x []) = Element n' t a x []"
  by simp

lemma leaf_child_kept:
  assumes "Element n' t a x [] \<in> set (children d)" and "n' \<noteq> n"
  shows "Element n' t a x [] \<in> set (children (update_elem n (set_attr k v) d))"
proof (cases d)
  case (Element i t' a' x' cs)
  show ?thesis
  proof (cases "i = n")
    case True
    with Element assms(1) show ?thesis by simp
  next
    case False
    from assms(1) Element have "Element n' t a x [] \<in> set cs" by simp
    then have "update_elem n (set_attr k v) (Element n' t a x []) \<in> update_elem n (set_attr k v) ` set cs"
      by (rule imageI)
    with assms(2) False Element show ?thesis by simp
  qed
qed


text \<open>
  Claim C8, as the code has it. For a path of the document that \<open>add_animation\<close>
  animates (start length the path's length, end length the integer 0), the rule that
  \<open>animate_path\<close> adds is keyed \<open>pathanim_\<close> followed by the path id. Its text has an
  id selector \<open>#pathId\<close> (not a class selector) that sets \<open>animation-name\<close> to the
  path id and \<open>stroke-dasharray\<close> to the length, marked \<open>!important\<close>, and a
  keyframes block named by the path id, where \<open>0%\<close> and the start percentage set
  \<open>stroke-dashoffset\<close> to the length and the end percentage and \<open>100%\<close> set it
  to \<open>0\<close>.
\<close>

theorem animate_path_rule:
  assumes "animate_path float_repr element start_percent end_percent length' length' (PyInt 0)
             anim_id st = Inr st'"
    and "element \<in> set (iter_elems (document st))"
    and "path_id = (case get_attr element ''id'' of None \<Rightarrow> ''None'' | Some i \<Rightarrow> i)"
  shows "Element (fresh_nid (document st)) ''style'' [(''id'', ''pathanim_'' @ path_id)]
           (Some (''\<newline>        #'' @ path_id @ '' {\<newline>'' @
                  ''          animation-name: '' @ path_id @ '';\<newline>'' @
                  ''          stroke-dasharray: '' @ py_str float_repr length' @ '' !important;\<newline>'' @
                  ''        }\<newline>'' @
                  ''        @keyframes '' @ path_id @ '' {\<newline>'' @
                  ''          0%, '' @ py_str float_repr start_percent @
                      ''% {stroke-dashoffset: '' @ py_str float_repr length' @ '';}\<newline>'' @
                  ''          '' @ py_str float_repr end_percent @
                      ''%, 100% {stroke-dashoffset: 0;}\<newline>'' @
                  ''        }\<newline>'')) []
         \<in> set (children (document st'))"
proof -
  let ?content = "path_style_content float_repr path_id start_percent end_percent
                    length' length' (PyInt 0)"
  from assms(1,3) obtain st1 where
    a: "add_or_replace_style_tag (''pathanim_'' @ path_id) ?content st = Inr st1" and
    s': "st' = st1\<lparr>document :=
                 update_elem (nid element) (set_attr ''class'' anim_id) (document st1)\<rparr>"
    by (auto simp: animate_path_def Let_def split: sum.splits)
  from add_or_replace_kept_children[OF a] obtain r where
    "st1 = st\<lparr>document := append_style (fresh_nid (document st)) (''pathanim_'' @ path_id) ?content r\<rparr>"
    by blast
  then have d1: "document st1 =
      append_style (fresh_nid (document st)) (''pathanim_'' @ path_id) ?content r"
    by simp
  let ?new = "Element (fresh_nid (document st)) ''style'' [(''id'', ''pathanim_'' @ path_id)]
                (Some ?content) []"
  have in1: "?new \<in> set (children (document st1))"
    by (simp add: d1 children_append_style)
  from nid_less_fresh[OF assms(2)] have ne: "fresh_nid (document st) \<noteq> nid element" by simp
  from leaf_child_kept[OF in1 ne] s'
  have in2: "?new \<in> set (children (document st'))" by simp
  have c: "?content =
      ''\<newline>        #'' @ path_id @ '' {\<newline>'' @
      ''          animation-name: '' @ path_id @ '';\<newline>'' @
      ''          stroke-dasharray: '' @ py_str float_repr length' @ '' !important;\<newline>'' @
      ''        }\<newline>'' @
      ''        @keyframes '' @ path_id @ '' {\<newline>'' @
      ''          0%, '' @ py_str float_repr start_percent @
          ''% {stroke-dashoffset: '' @ py_str float_repr length' @ '';}\<newline>'' @
      ''          '' @ py_str float_repr end_percent @
          ''%, 100% {stroke-dashoffset: 0;}\<newline>'' @
      ''        }\<newline>''"
    by (simp add: path_style_content_def str_int_zero)
  from in2 show ?thesis unfolding c .
qed

text \<open>
  For the path \<open>p1\<close> the text in front of the first block is the id selector
  \<open>#p1\<close>; the rule has no class selector.
\<close>

theorem path_rule_id_selector_counterexample:
  "takeWhile (\<lambda>c. c \<noteq> CHR ''{'')
     (path_style_content (\<lambda>r. if r = 5 then ''5.0'' else ''40.0'') ''p1''
        (PyInt 0) (PyFloat 40) (PyFloat 5) (PyFloat 5) (PyInt 0))
     = ''\<newline>        #p1 '' \<and>
   path_style_content (\<lambda>r. if r = 5 then ''5.0'' else ''40.0'') ''p1''
        (PyInt 0) (PyFloat 40) (PyFloat 5) (PyFloat 5) (PyInt 0) =
     ''\<newline>        #p1 {\<newline>          animation-name: p1;\<newline>          stroke-dasharray: 5.0 !important;\<newline>        }\<newline>        @keyframes p1 {\<newline>          0%, 0% {stroke-dashoffset: 5.0;}\<newline>          40.0%, 100% {stroke-dashoffset: 0;}\<newline>        }\<newline>''"
  by (simp add: path_style_content_def str_int_zero)


theorem animate_path_rule_witness:
  "\<exists>st'. animate_path (\<lambda>r. if r = 5 then ''5.0'' else ''40.0'')
          (Element 1 (addNS ''path'' ''svg'') [(''id'', ''p1'')] None [])
          (PyInt 0) (PyFloat 40) (PyFloat 5) (PyFloat 5) (PyInt 0) ''anim_0''
          \<lparr>document = Element 0 (addNS ''svg'' ''svg'') [] None
                        [Element 1 (addNS ''path'' ''svg'') [(''id'', ''p1'')] None []],
           messages = [], files = []\<rparr> = Inr st' \<and>
     Element 2 ''style'' [(''id'', ''pathanim_p1'')]
       (Some ''\<newline>        #p1 {\<newline>          animation-name: p1;\<newline>          stroke-dasharray: 5.0 !important;\<newline>        }\<newline>        @keyframes p1 {\<newline>          0%, 0% {stroke-dashoffset: 5.0;}\<newline>          40.0%, 100% {stroke-dashoffset: 0;}\<newline>        }\<newline>'') []
     \<in> set (children (document st'))"
proof -
  let ?fr = "\<lambda>r::rat. if r = 5 then ''5.0'' else ''40.0''"
  let ?p = "Element 1 (addNS ''path'' ''svg'') [(''id'', ''p1'')] None []"
  let ?st = "\<lparr>document = Element 0 (addNS ''svg'' ''svg'') [] None [?p],
           messages = [], files = []\<rparr>"
  have ok: "\<exists>st'. animate_path ?fr ?p (PyInt 0) (PyFloat 40) (PyFloat 5) (PyFloat 5) (PyInt 0)
              ''anim_0'' ?st = Inr st'"
    by (simp add: animate_path_def Let_def add_or_replace_unfold get_attr_def addNS_def NSS_def)
  then obtain st' where
    a: "animate_path ?fr ?p (PyInt 0) (PyFloat 40) (PyFloat 5) (PyFloat 5) (PyInt 0)
              ''anim_0'' ?st = Inr st'"
    by blast
  have b: "?p \<in> set (iter_elems (document ?st))" by simp
  have c: "''p1'' = (case get_attr ?p ''id'' of None \<Rightarrow> ''None'' | Some i \<Rightarrow> i)"
    by (simp add: get_attr_def)
  have f: "fresh_nid (document ?st) = 2" by (simp add: fresh_nid_def)
  from animate_path_rule[OF a b c] f a show ?thesis
    by (simp add: str_int_zero)
qed

subsection \<open>The live document and the written copies\<close>

lemma tag_update_set_attr: "tag (update_elem n (set_attr k v) c) = tag c"
  by (cases c) simp

lemma text_update_set_attr: "text_content (update_elem n (set_attr k v) c) = text_content c"
  by (cases c) simp

lemma get_attr_set_attr_other: "k \<noteq> a \<Longrightarrow> get_attr (set_attr k v c) a = get_attr c a"
  by (cases c) (simp add: get_attr_def update_conv')

lemma get_attr_update_set_attr:
  "k \<noteq> a \<Longrightarrow> get_attr (update_elem n (set_attr k v) c) a = get_attr c a"
proof (cases c)
  case (Element i t as x cs)
  assume "k \<noteq> a"
  then show ?thesis
    by (simp add: Element get_attr_def update_conv')
qed

lemma style_rules_update_set_attr:
  assumes "k \<noteq> ''id''"
  shows "style_rules (update_elem n (set_attr k v) d) = style_rules d"
proof (cases d)
  case (Element i t as x cs)
  show ?thesis
  proof (cases "i = n")
    case True
    then show ?thesis by (simp add: Element style_rules_def)
  next
    case False
    have "map (\<lambda>c. (get_attr c ''id'', text_content c))
            (filter (\<lambda>c. tag c = ''style'') (map (update_elem n (set_attr k v)) cs)) =
          map (\<lambda>c. (get_attr c ''id'', text_content c)) (filter (\<lambda>c. tag c = ''style'') cs)"
      by (induction cs)
         (simp_all add: tag_update_set_attr text_update_set_attr get_attr_update_set_attr[OF assms])
    with False show ?thesis by (simp add: Element style_rules_def)
  qed
qed

lemma style_ne_id: "''style'' \<noteq> ''id''"
  by simp

lemma clone_visibility_rules:
  "clone_visibility export_item ls doc = Inr written \<Longrightarrow> style_rules written = style_rules doc"
proof (induction ls arbitrary: doc)
  case Nil
  then show ?case by simp
next
  case (Cons l ls)
  from Cons.prems obtain i where i: "get_attr l ''id'' = Some i"
    by (cases "get_attr l ''id''") simp_all
  let ?doc = "update_elem (nid l)
               (set_attr ''style''
                  (if i \<in> visible_layers export_item then ''display:inline'' else ''display:none''))
               doc"
  from Cons.prems i have "clone_visibility export_item ls ?doc = Inr written" by simp
  from Cons.IH[OF this] have "style_rules written = style_rules ?doc" .
  also have "\<dots> = style_rules doc" by (rule style_rules_update_set_attr[OF style_ne_id])
  finally show ?case .
qed

lemma clone_visibility_ok:
  "\<forall>g\<in>set ls. get_attr g ''id'' \<noteq> None \<Longrightarrow> \<exists>written. clone_visibility export_item ls doc = Inr written"
proof (induction ls arbitrary: doc)
  case Nil
  show ?case by simp
next
  case (Cons l ls)
  from Cons.prems obtain i where i: "get_attr l ''id'' = Some i" by auto
  from Cons.prems have "\<forall>g\<in>set ls. get_attr g ''id'' \<noteq> None" by simp
  from Cons.IH[OF this] i show ?case by simp
qed

lemma set_visibility_rules:
  "set_visibility layer_list export_item st = Inr st1 \<Longrightarrow>
   style_rules (document st1) = style_rules (document st) \<and>
   messages st1 = messages st \<and> files st1 = files st"
proof (induction layer_list arbitrary: st)
  case Nil
  then show ?case by simp
next
  case (Cons l ls)
  from Cons.prems obtain layer_tag where t: "getElementById (id' l) (document st) = Some layer_tag"
    by (cases "getElementById (id' l) (document st)") simp_all
  let ?st = "st\<lparr>document :=
               update_elem (nid layer_tag)
                 (set_attr ''style''
                    (if id' l \<in> visible_layers export_item
                     then ''display:inline'' else ''display:none''))
                 (document st)\<rparr>"
  from Cons.prems t have "set_visibility ls export_item ?st = Inr st1" by simp
  from Cons.IH[OF this] style_rules_update_set_attr[OF style_ne_id]
  show ?case by simp
qed

lemma export_to_svg_Inr:
  assumes "export_to_svg export_item out_dir st = Inr st'"
  shows "\<exists>written. clone_visibility export_item (svg_layers (document st)) (document st) = Inr written \<and>
           st' = st\<lparr>files := files st @
                    [(out_dir @ ''/'' @ file_name export_item @ ''.svg'', written)]\<rparr>"
  using assms by (auto simp: export_to_svg_def Let_def split: sum.splits)

text \<open>
  Claim C7. When the top layer of a step holds no path, \<open>add_animation\<close> prints the
  warning, returns without an error and leaves the document as it is. The step goes on:
  it writes the step's file, and the written document has the style rules the live
  document had before the step, nothing more. (The layers of a document carry ids.)
\<close>

theorem no_paths_warns_and_exports:
  assumes "set_visibility layer_list export_item st = Inr st1"
    and "top_layer_id set_order export_item = Inr tid"
    and "getElementById tid (document st1) = Some top_layer_tag"
    and "get_all_paths_in_layer top_layer_tag = []"
    and "\<forall>g\<in>set (svg_layers (document st1)). get_attr g ''id'' \<noteq> None"
  shows "add_animation opts csplength_path float_repr (get_all_paths_in_layer top_layer_tag)
           (''anim_'' @ str_nat idx) st1 =
           Inr (st1\<lparr>messages := messages st1 @
                  [''Please convert all objects to paths before running this extension.'']\<rparr>) \<and>
         (\<exists>written.
            effect_step opts set_order csplength_path float_repr layer_list idx export_item st =
              Inr (st1\<lparr>messages := messages st @
                         [''Please convert all objects to paths before running this extension.''],
                       files := files st @
                         [(output_dir opts @ ''/'' @ file_name export_item @ ''.svg'', written)]\<rparr>) \<and>
            style_rules written = style_rules (document st))"
proof -
  let ?warn = "''Please convert all objects to paths before running this extension.''"
  have anim: "add_animation opts csplength_path float_repr (get_all_paths_in_layer top_layer_tag)
           (''anim_'' @ str_nat idx) st1 = Inr (st1\<lparr>messages := messages st1 @ [?warn]\<rparr>)"
    by (simp add: assms(4) add_animation_def errormsg_def)
  from clone_visibility_ok[OF assms(5)] obtain written where
    w: "clone_visibility export_item (svg_layers (document st1)) (document st1) = Inr written"
    by blast
  from set_visibility_rules[OF assms(1)] have
    keep: "style_rules (document st1) = style_rules (document st)"
      "messages st1 = messages st" "files st1 = files st"
    by simp_all
  have step: "effect_step opts set_order csplength_path float_repr layer_list idx export_item st =
      Inr (st1\<lparr>messages := messages st @ [?warn],
               files := files st @
                 [(output_dir opts @ ''/'' @ file_name export_item @ ''.svg'', written)]\<rparr>)"
    using anim w keep(2,3)
    by (simp add: effect_step_def assms(1,2,3) export_to_svg_def)
  from clone_visibility_rules[OF w] keep(1)
  have "style_rules written = style_rules (document st)" by simp
  with anim step show ?thesis by blast
qed

theorem no_paths_warns_and_exports_witness:
  "\<exists>written.
     effect_step
       \<lparr>output_dir = ''out'', prefix = [], enumerate_opt = False, include_background = True,
        animation_style = ''ease''\<rparr>
       (\<lambda>S. filter (\<lambda>x. x \<in> S) [''layer1''])
       (\<lambda>e. ([[PyFloat 1]], PyFloat 1)) (\<lambda>r. ''1.0'')
       [\<lparr>id' = ''layer1'', label = ''bg''\<rparr>] 0
       \<lparr>visible_layers = {''layer1''}, file_name = ''bg''\<rparr>
       \<lparr>document =
          Element 0 (addNS ''svg'' ''svg'') [] None
            [Element 1 (addNS ''g'' ''svg'')
               [(''id'', ''layer1''), (addNS ''groupmode'' ''inkscape'', ''layer'')] None
               [Element 2 (addNS ''rect'' ''svg'') [(''id'', ''r1'')] None []]],
        messages = [], files = []\<rparr> =
     Inr \<lparr>document =
            Element 0 (addNS ''svg'' ''svg'') [] None
              [Element 1 (addNS ''g'' ''svg'')
                 [(''id'', ''layer1''), (addNS ''groupmode'' ''inkscape'', ''layer''),
                  (''style'', ''display:inline'')] None
                 [Element 2 (addNS ''rect'' ''svg'') [(''id'', ''r1'')] None []]],
          messages = [''Please convert all objects to paths before running this extension.''],
          files = [(''out/bg.svg'', written)]\<rparr> \<and>
     style_rules written = []"
proof -
  let ?o = "\<lparr>output_dir = ''out'', prefix = [], enumerate_opt = False, include_background = True,
        animation_style = ''ease''\<rparr>"
  let ?ord = "\<lambda>S. filter (\<lambda>x. x \<in> S) [''layer1'']"
  let ?e = "\<lparr>visible_layers = {''layer1''}, file_name = ''bg''\<rparr>"
  let ?rect = "Element 2 (addNS ''rect'' ''svg'') [(''id'', ''r1'')] None []"
  let ?g = "Element 1 (addNS ''g'' ''svg'')
               [(''id'', ''layer1''), (addNS ''groupmode'' ''inkscape'', ''layer'')] None [?rect]"
  let ?g1 = "Element 1 (addNS ''g'' ''svg'')
               [(''id'', ''layer1''), (addNS ''groupmode'' ''inkscape'', ''layer''),
                (''style'', ''display:inline'')] None [?rect]"
  let ?st = "\<lparr>document = Element 0 (addNS ''svg'' ''svg'') [] None [?g],
        messages = [], files = []\<rparr>"
  let ?st1 = "\<lparr>document = Element 0 (addNS ''svg'' ''svg'') [] None [?g1],
        messages = [], files = []\<rparr>"
  have v: "set_visibility [\<lparr>id' = ''layer1'', label = ''bg''\<rparr>] ?e ?st = Inr ?st1"
    by (simp add: getElementById_def get_attr_def addNS_def NSS_def)
  have t: "top_layer_id ?ord ?e = Inr ''layer1''"
    by (simp add: top_layer_id_def)
  have g: "getElementById ''layer1'' (document ?st1) = Some ?g1"
    by (simp add: getElementById_def get_attr_def addNS_def NSS_def)
  have p: "get_all_paths_in_layer ?g1 = []"
    by (simp add: get_all_paths_in_layer_def addNS_def NSS_def)
  have i: "\<forall>g\<in>set (svg_layers (document ?st1)). get_attr g ''id'' \<noteq> None"
    by (simp add: svg_layers_def get_attr_def addNS_def NSS_def)
  have r: "style_rules (document ?st) = []"
    by (simp add: style_rules_def addNS_def NSS_def)
  from no_paths_warns_and_exports[OF v t g p i, of ?o "\<lambda>e. ([[PyFloat 1]], PyFloat 1)" "\<lambda>r. ''1.0''" 0] r
  show ?thesis by simp
qed

subsection \<open>What a written copy is\<close>

lemma iter_elems_unfold: "iter_elems c = c # concat (map iter_elems (children c))"
  by (cases c) simp

lemma nids_unfold:
  "map nid (iter_elems c) = nid c # concat (map (\<lambda>k. map nid (iter_elems k)) (children c))"
  by (cases c) (simp add: map_concat comp_def)

lemma update_elem_notin: "n \<notin> set (map nid (iter_elems c)) \<Longrightarrow> update_elem n f c = c"
proof (induction c)
  case (Element i t a x cs)
  have "map (update_elem n f) cs = cs"
  proof (rule map_idI)
    fix k assume k: "k \<in> set cs"
    with Element.prems have "n \<notin> set (map nid (iter_elems k))" by auto
    from Element.IH[OF k this] show "update_elem n f k = k" .
  qed
  with Element.prems show ?case by simp
qed

lemma nids_update_set_attr:
  "map nid (iter_elems (update_elem n (set_attr k v) c)) = map nid (iter_elems c)"
proof (induction c)
  case (Element i t a x cs)
  show ?case
  proof (cases "i = n")
    case True
    then show ?thesis by simp
  next
    case False
    have "map (\<lambda>c. map nid (iter_elems (update_elem n (set_attr k v) c))) cs =
          map (\<lambda>c. map nid (iter_elems c)) cs"
      by (rule map_cong[OF refl]) (rule Element.IH)
    then have "concat (map (\<lambda>c. map nid (iter_elems (update_elem n (set_attr k v) c))) cs) =
          concat (map (\<lambda>c. map nid (iter_elems c)) cs)"
      by (rule arg_cong)
    with False show ?thesis by (simp add: map_concat comp_def)
  qed
qed

lemma nids_set_display: "map nid (iter_elems (set_display vis c l)) = map nid (iter_elems c)"
  by (simp add: set_display_def nids_update_set_attr)

lemma nids_foldl_set_display:
  "map nid (iter_elems (foldl (set_display vis) c ls)) = map nid (iter_elems c)"
  by (induction ls arbitrary: c) (simp_all add: nids_set_display)

lemma foldl_set_display_root:
  "\<forall>l\<in>set ls. nid l \<noteq> i \<Longrightarrow>
   foldl (set_display vis) (Element i t a x cs) ls =
     Element i t a x (map (\<lambda>c. foldl (set_display vis) c ls) cs)"
proof (induction ls arbitrary: cs)
  case Nil
  show ?case by simp
next
  case (Cons l ls)
  from Cons.prems have l: "i \<noteq> nid l" and ls: "\<forall>l\<in>set ls. nid l \<noteq> i" by auto
  from l have "set_display vis (Element i t a x cs) l =
      Element i t a x (map (\<lambda>c. set_display vis c l) cs)"
    by (simp add: set_display_def)
  with Cons.IH[OF ls] show ?case by (simp add: comp_def)
qed

lemma foldl_set_display_filter:
  "foldl (set_display vis) c ls =
   foldl (set_display vis) c (filter (\<lambda>l. nid l \<in> set (map nid (iter_elems c))) ls)"
proof (induction ls arbitrary: c)
  case Nil
  show ?case by simp
next
  case (Cons l ls)
  show ?case
  proof (cases "nid l \<in> set (map nid (iter_elems c))")
    case True
    from Cons.IH[of "set_display vis c l"] True show ?thesis
      by (simp add: nids_set_display)
  next
    case False
    then have "set_display vis c l = c"
      unfolding set_display_def by (rule update_elem_notin)
    with Cons.IH[of c] False show ?thesis by simp
  qed
qed

lemma is_layer_eq:
  "is_layer = (\<lambda>e. tag e = addNS ''g'' ''svg'' \<and>
                   get_attr e (addNS ''groupmode'' ''inkscape'') = Some ''layer'')"
  by (rule ext) (simp only: is_layer_def)

lemma svg_layers_is_layer: "svg_layers d = filter is_layer (iter_elems d)"
  by (simp only: svg_layers_def is_layer_eq)

lemma svg_layers_subset: "set (svg_layers d) \<subseteq> set (iter_elems d)"
  by (simp add: svg_layers_is_layer)

lemma svg_layers_unfold:
  "svg_layers d = (if is_layer d then [d] else []) @ concat (map svg_layers (children d))"
proof -
  have "filter is_layer (concat (map iter_elems (children d))) =
        concat (map (\<lambda>c. filter is_layer (iter_elems c)) (children d))"
    by (simp add: filter_concat comp_def)
  also have "\<dots> = concat (map svg_layers (children d))"
    by (simp only: svg_layers_is_layer[symmetric])
  finally have "filter is_layer (concat (map iter_elems (children d))) =
        concat (map svg_layers (children d))" .
  then show ?thesis
    by (subst svg_layers_is_layer, subst iter_elems_unfold) simp
qed

lemma layers_nids_children:
  "l \<in> set (concat (map svg_layers cs)) \<Longrightarrow>
   nid l \<in> set (concat (map (\<lambda>k. map nid (iter_elems k)) cs))"
  using svg_layers_subset by fastforce

lemma filter_layers_children:
  "distinct (concat (map (\<lambda>k. map nid (iter_elems k)) cs)) \<Longrightarrow> c \<in> set cs \<Longrightarrow>
   filter (\<lambda>l. nid l \<in> set (map nid (iter_elems c))) (concat (map svg_layers cs)) = svg_layers c"
proof (induction cs)
  case Nil
  then show ?case by simp
next
  case (Cons k cs)
  from Cons.prems(1) have dk: "distinct (map nid (iter_elems k))"
    and dcs: "distinct (concat (map (\<lambda>k. map nid (iter_elems k)) cs))"
    and disj: "set (map nid (iter_elems k)) \<inter> set (concat (map (\<lambda>k. map nid (iter_elems k)) cs)) = {}"
    by simp_all
  show ?case
  proof (cases "c = k")
    case True
    have a: "filter (\<lambda>l. nid l \<in> set (map nid (iter_elems k))) (svg_layers k) = svg_layers k"
      using svg_layers_subset[of k] by (auto simp: filter_id_conv)
    have b: "filter (\<lambda>l. nid l \<in> set (map nid (iter_elems k))) (concat (map svg_layers cs)) = []"
    proof -
      have "\<forall>l\<in>set (concat (map svg_layers cs)). nid l \<notin> set (map nid (iter_elems k))"
      proof
        fix l assume "l \<in> set (concat (map svg_layers cs))"
        from layers_nids_children[OF this] disj
        show "nid l \<notin> set (map nid (iter_elems k))" by blast
      qed
      then show ?thesis by (auto simp: filter_empty_conv)
    qed
    from a b True show ?thesis by simp
  next
    case False
    with Cons.prems(2) have c: "c \<in> set cs" by simp
    then have sub: "set (map nid (iter_elems c)) \<subseteq> set (concat (map (\<lambda>k. map nid (iter_elems k)) cs))"
      by auto
    have a: "filter (\<lambda>l. nid l \<in> set (map nid (iter_elems c))) (svg_layers k) = []"
    proof -
      have "\<forall>l\<in>set (svg_layers k). nid l \<notin> set (map nid (iter_elems c))"
      proof
        fix l assume "l \<in> set (svg_layers k)"
        with svg_layers_subset[of k] have "nid l \<in> set (map nid (iter_elems k))" by auto
        with disj sub show "nid l \<notin> set (map nid (iter_elems c))" by blast
      qed
      then show ?thesis by (auto simp: filter_empty_conv)
    qed
    from a Cons.IH[OF dcs c] show ?thesis by simp
  qed
qed

lemma distinct_concat_member:
  "distinct (concat xss) \<Longrightarrow> xs \<in> set xss \<Longrightarrow> distinct xs"
  by (induction xss) auto

lemma set_attr_fields:
  "nid (set_attr k v e) = nid e" "tag (set_attr k v e) = tag e"
  "text_content (set_attr k v e) = text_content e" "children (set_attr k v e) = children e"
  by (cases e; simp)+

lemma resolve_visibility_unfold:
  "resolve_visibility vis (Element i t a x cs) =
     Element i t
       (if is_layer (Element i t a x cs)
        then AList.update ''style'' (layer_display vis (Element i t a x cs)) a else a)
       x (map (resolve_visibility vis) cs)"
  by (simp add: Let_def is_layer_def layer_display_def get_attr_def)

lemma foldl_set_display_resolve:
  "distinct (map nid (iter_elems d)) \<Longrightarrow>
   foldl (set_display vis) d (svg_layers d) = resolve_visibility vis d"
proof (induction d)
  case (Element i t a x cs)
  let ?d = "Element i t a x cs"
  let ?rest = "concat (map svg_layers cs)"
  from Element.prems have inot: "i \<notin> set (concat (map (\<lambda>k. map nid (iter_elems k)) cs))"
    and dcs: "distinct (concat (map (\<lambda>k. map nid (iter_elems k)) cs))"
    by (simp_all add: map_concat comp_def)
  have rest: "\<forall>l\<in>set ?rest. nid l \<noteq> i"
  proof
    fix l assume "l \<in> set ?rest"
    from layers_nids_children[OF this] inot show "nid l \<noteq> i" by auto
  qed
  have kids: "map (\<lambda>c. foldl (set_display vis) c ?rest) cs = map (resolve_visibility vis) cs"
  proof (rule map_cong[OF refl])
    fix c assume c: "c \<in> set cs"
    then have "map nid (iter_elems c) \<in> set (map (\<lambda>k. map nid (iter_elems k)) cs)" by simp
    from distinct_concat_member[OF dcs this] have dc: "distinct (map nid (iter_elems c))" .
    have "foldl (set_display vis) c ?rest =
          foldl (set_display vis) c (filter (\<lambda>l. nid l \<in> set (map nid (iter_elems c))) ?rest)"
      by (rule foldl_set_display_filter)
    also have "\<dots> = foldl (set_display vis) c (svg_layers c)"
      by (simp only: filter_layers_children[OF dcs c])
    also have "\<dots> = resolve_visibility vis c" by (rule Element.IH[OF c dc])
    finally show "foldl (set_display vis) c ?rest = resolve_visibility vis c" .
  qed
  have sl: "svg_layers ?d = (if is_layer ?d then [?d] else []) @ ?rest"
    using svg_layers_unfold[of ?d] by simp
  show ?case
  proof (cases "is_layer ?d")
    case True
    have "set_display vis ?d ?d =
          Element i t (AList.update ''style'' (layer_display vis ?d) a) x cs"
      by (simp add: set_display_def)
    with True sl have "foldl (set_display vis) ?d (svg_layers ?d) =
        foldl (set_display vis)
          (Element i t (AList.update ''style'' (layer_display vis ?d) a) x cs) ?rest"
      by simp
    also have "\<dots> = Element i t (AList.update ''style'' (layer_display vis ?d) a) x
                       (map (\<lambda>c. foldl (set_display vis) c ?rest) cs)"
      by (rule foldl_set_display_root[OF rest])
    also have "\<dots> = resolve_visibility vis ?d"
      using True by (simp only: kids resolve_visibility_unfold if_True)
    finally show ?thesis .
  next
    case False
    with sl have "foldl (set_display vis) ?d (svg_layers ?d) = foldl (set_display vis) ?d ?rest"
      by simp
    also have "\<dots> = Element i t a x (map (\<lambda>c. foldl (set_display vis) c ?rest) cs)"
      by (rule foldl_set_display_root[OF rest])
    also have "\<dots> = resolve_visibility vis ?d"
      using False by (simp only: kids resolve_visibility_unfold if_False)
    finally show ?thesis .
  qed
qed

lemma clone_visibility_foldl:
  "\<forall>g\<in>set ls. get_attr g ''id'' \<noteq> None \<Longrightarrow>
   clone_visibility export_item ls doc =
     Inr (foldl (set_display (visible_layers export_item)) doc ls)"
proof (induction ls arbitrary: doc)
  case Nil
  show ?case by simp
next
  case (Cons l ls)
  from Cons.prems obtain i where i: "get_attr l ''id'' = Some i" by auto
  from Cons.prems have "\<forall>g\<in>set ls. get_attr g ''id'' \<noteq> None" by simp
  from Cons.IH[OF this] i show ?case
    by (simp add: set_display_def layer_display_def)
qed

lemma clone_visibility_ids:
  "clone_visibility export_item ls doc = Inr written \<Longrightarrow> \<forall>g\<in>set ls. get_attr g ''id'' \<noteq> None"
proof (induction ls arbitrary: doc)
  case Nil
  show ?case by simp
next
  case (Cons l ls)
  from Cons.prems obtain i where i: "get_attr l ''id'' = Some i"
    by (cases "get_attr l ''id''") simp_all
  with Cons.prems Cons.IH show ?case by auto
qed

lemma clone_visibility_resolve:
  assumes "distinct (map nid (iter_elems d))"
    and "clone_visibility export_item (svg_layers d) d = Inr written"
  shows "written = resolve_visibility (visible_layers export_item) d"
proof -
  from clone_visibility_foldl[OF clone_visibility_ids[OF assms(2)]] assms(2)
  have "written = foldl (set_display (visible_layers export_item)) d (svg_layers d)" by simp
  with foldl_set_display_resolve[OF assms(1)] show ?thesis by simp
qed

lemma export_to_svg_resolve:
  assumes "distinct (map nid (iter_elems (document st)))"
    and "export_to_svg export_item out_dir st = Inr st'"
  shows "st' = st\<lparr>files := files st @
                  [(out_dir @ ''/'' @ file_name export_item @ ''.svg'',
                    resolve_visibility (visible_layers export_item) (document st))]\<rparr>"
proof -
  from export_to_svg_Inr[OF assms(2)] obtain written where
    w: "clone_visibility export_item (svg_layers (document st)) (document st) = Inr written" and
    s: "st' = st\<lparr>files := files st @
                    [(out_dir @ ''/'' @ file_name export_item @ ''.svg'', written)]\<rparr>"
    by blast
  from clone_visibility_resolve[OF assms(1) w] s show ?thesis by simp
qed

lemma resolve_visibility_fields:
  "nid (resolve_visibility vis c) = nid c" "tag (resolve_visibility vis c) = tag c"
  "text_content (resolve_visibility vis c) = text_content c"
  "get_attr (resolve_visibility vis c) ''id'' = get_attr c ''id''"
  "children (resolve_visibility vis c) = map (resolve_visibility vis) (children c)"
  by (cases c; simp add: resolve_visibility_unfold get_attr_def update_conv' del: resolve_visibility.simps)+

lemma style_rules_resolve_visibility:
  "style_rules (resolve_visibility vis d) = style_rules d"
proof -
  have "map (\<lambda>c. (get_attr c ''id'', text_content c))
          (filter (\<lambda>c. tag c = ''style'') (map (resolve_visibility vis) cs)) =
        map (\<lambda>c. (get_attr c ''id'', text_content c)) (filter (\<lambda>c. tag c = ''style'') cs)" for cs
    by (induction cs) (simp_all add: resolve_visibility_fields)
  then show ?thesis by (simp add: style_rules_def resolve_visibility_fields)
qed

subsection \<open>Rules stay in the live document\<close>

lemma distinct_concat_filter:
  "distinct (concat (map f cs)) \<Longrightarrow> distinct (concat (map f (filter P cs)))"
  by (induction cs) auto

lemma set_concat_filter:
  "set (concat (map f (filter P cs))) \<subseteq> set (concat (map f cs))"
  by auto

lemma style_rules_children: "children r = children d \<Longrightarrow> style_rules r = style_rules d"
  by (simp add: style_rules_def)

lemma style_rules_append_style_eq:
  "style_rules (append_style n tag_id content r) = style_rules r @ [(Some tag_id, Some content)]"
  by (simp add: style_rules_def append_style_def get_attr_def)

lemma nids_append_style:
  "map nid (iter_elems (append_style n tag_id content r)) = map nid (iter_elems r) @ [n]"
  by (subst nids_unfold, subst (2) nids_unfold) (simp add: append_style_def)

text \<open>In a tree of distinct nodes a child with the identity of a node is that node.\<close>

lemma child_by_nid:
  assumes "distinct (map nid (iter_elems d))" and "t \<in> set (iter_elems d)"
    and "c \<in> set (children d)" and "nid c = nid t"
  shows "c = t"
proof -
  from assms(1) have inj: "inj_on nid (set (iter_elems d))" by (simp add: distinct_map)
  have "c \<in> set (iter_elems d)"
    by (rule iter_elems_child[OF assms(3) iter_elems_self])
  from inj_onD[OF inj assms(4) this assms(2)] show ?thesis .
qed

lemma add_or_replace_rules:
  assumes wf: "distinct (map nid (iter_elems (document st)))"
    and ok: "add_or_replace_style_tag tag_id content st = Inr st'"
  shows "style_rules (document st') = style_rules (document st) @ [(Some tag_id, Some content)]"
    and "distinct (map nid (iter_elems (document st')))"
    and "messages st' = messages st" and "files st' = files st"
proof -
  let ?d = "document st"
  from add_or_replace_Inr[OF ok] obtain r where
    st': "st' = st\<lparr>document := append_style (fresh_nid ?d) tag_id content r\<rparr>" and
    nr: "nid r = nid ?d" and
    cr: "children r = children ?d \<or>
         (\<exists>t\<in>set (iter_elems ?d). tag t = addNS ''style'' ''svg'' \<and>
            children r = filter (\<lambda>c. nid c \<noteq> nid t) (children ?d))"
    by blast
  from st' have doc: "document st' = append_style (fresh_nid ?d) tag_id content r" by simp
  from st' show "messages st' = messages st" "files st' = files st" by simp_all
  have rules: "style_rules r = style_rules ?d"
  proof -
    from cr consider "children r = children ?d"
      | t where "t \<in> set (iter_elems ?d)" "tag t = addNS ''style'' ''svg''"
          "children r = filter (\<lambda>c. nid c \<noteq> nid t) (children ?d)"
      by blast
    then show ?thesis
    proof cases
      case 1
      then show ?thesis by (rule style_rules_children)
    next
      case 2
      have "filter (\<lambda>c. tag c = ''style'') (filter (\<lambda>c. nid c \<noteq> nid t) (children ?d)) =
            filter (\<lambda>c. tag c = ''style'') (children ?d)"
      proof -
        have "\<forall>c\<in>set (children ?d). tag c = ''style'' \<longrightarrow> nid c \<noteq> nid t"
        proof (intro ballI impI notI)
          fix c assume c: "c \<in> set (children ?d)" and s: "tag c = ''style''" and n: "nid c = nid t"
          from child_by_nid[OF wf 2(1) c n] 2(2) s svg_style_not_bare show False by simp
        qed
        then show ?thesis by (auto simp: filter_filter intro: filter_cong)
      qed
      with 2(3) show ?thesis by (simp add: style_rules_def)
    qed
  qed
  from doc rules show "style_rules (document st') = style_rules ?d @ [(Some tag_id, Some content)]"
    by (simp add: style_rules_append_style_eq)
  have sub: "set (map nid (iter_elems r)) \<subseteq> set (map nid (iter_elems ?d))"
    and dr: "distinct (map nid (iter_elems r))"
  proof -
    from cr consider "children r = children ?d"
      | t where "children r = filter (\<lambda>c. nid c \<noteq> nid t) (children ?d)"
      by blast
    then have "set (map nid (iter_elems r)) \<subseteq> set (map nid (iter_elems ?d)) \<and>
               distinct (map nid (iter_elems r))"
    proof cases
      case 1
      with nr have "map nid (iter_elems r) = map nid (iter_elems ?d)"
        by (subst nids_unfold, subst (2) nids_unfold) simp
      with wf show ?thesis by simp
    next
      case 2
      let ?f = "\<lambda>k. map nid (iter_elems k)"
      let ?P = "\<lambda>c. nid c \<noteq> nid t"
      have r: "map nid (iter_elems r) = nid ?d # concat (map ?f (filter ?P (children ?d)))"
        using nr 2 by (subst nids_unfold) simp
      have d: "map nid (iter_elems ?d) = nid ?d # concat (map ?f (children ?d))"
        by (rule nids_unfold)
      from wf d have a: "nid ?d \<notin> set (concat (map ?f (children ?d)))"
        and b: "distinct (concat (map ?f (children ?d)))" by simp_all
      from a set_concat_filter[of ?f ?P "children ?d"]
      have a': "nid ?d \<notin> set (concat (map ?f (filter ?P (children ?d))))" by blast
      from distinct_concat_filter[OF b] have b': "distinct (concat (map ?f (filter ?P (children ?d))))" .
      have s: "set (map nid (iter_elems r)) \<subseteq> set (map nid (iter_elems ?d))"
        using set_concat_filter[of ?f ?P "children ?d"] by (simp only: r d) auto
      from a' b' have "distinct (map nid (iter_elems r))" by (simp only: r) simp
      with s show ?thesis by blast
    qed
    then show "set (map nid (iter_elems r)) \<subseteq> set (map nid (iter_elems ?d))"
      and "distinct (map nid (iter_elems r))" by blast+
  qed
  have "fresh_nid ?d \<notin> set (map nid (iter_elems ?d))"
  proof
    assume "fresh_nid ?d \<in> set (map nid (iter_elems ?d))"
    then obtain e where "e \<in> set (iter_elems ?d)" "nid e = fresh_nid ?d" by auto
    with nid_less_fresh[of e ?d] show False by simp
  qed
  with sub have "fresh_nid ?d \<notin> set (map nid (iter_elems r))" by blast
  with dr doc show "distinct (map nid (iter_elems (document st')))"
    by (simp only: nids_append_style) simp
qed

lemma class_ne_id: "''class'' \<noteq> ''id''"
  by simp

lemma animate_path_rules:
  assumes wf: "distinct (map nid (iter_elems (document st)))"
    and ok: "animate_path float_repr element start_percent end_percent length' start_length
               end_length anim_id st = Inr st'"
  shows "\<exists>rule. style_rules (document st') = style_rules (document st) @ [rule]"
    and "distinct (map nid (iter_elems (document st')))"
    and "messages st' = messages st" and "files st' = files st"
proof -
  let ?pid = "case get_attr element ''id'' of None \<Rightarrow> ''None'' | Some i \<Rightarrow> i"
  let ?content = "path_style_content float_repr ?pid start_percent end_percent
                    length' start_length end_length"
  from ok obtain st1 where
    a: "add_or_replace_style_tag (''pathanim_'' @ ?pid) ?content st = Inr st1" and
    s: "st' = st1\<lparr>document := update_elem (nid element) (set_attr ''class'' anim_id) (document st1)\<rparr>"
    by (auto simp: animate_path_def Let_def split: sum.splits)
  from s have doc: "document st' = update_elem (nid element) (set_attr ''class'' anim_id) (document st1)"
    and m: "messages st' = messages st1" and f: "files st' = files st1" by simp_all
  note r = add_or_replace_rules[OF wf a]
  from doc r(1) show "\<exists>rule. style_rules (document st') = style_rules (document st) @ [rule]"
    by (simp add: style_rules_update_set_attr[OF class_ne_id])
  from doc r(2) show "distinct (map nid (iter_elems (document st')))"
    by (simp add: nids_update_set_attr)
  from m r(3) show "messages st' = messages st" by simp
  from f r(4) show "files st' = files st" by simp
qed

lemma animate_loop_rules:
  "distinct (map nid (iter_elems (document st))) \<Longrightarrow>
   animate_loop float_repr to_animate anim_id total_length end_percent ils st = Inr st' \<Longrightarrow>
   (\<exists>rules. style_rules (document st') = style_rules (document st) @ rules \<and>
            length rules = length ils) \<and>
   distinct (map nid (iter_elems (document st'))) \<and> files st' = files st"
proof (induction ils arbitrary: st end_percent)
  case Nil
  then show ?case by simp
next
  case (Cons il ils)
  obtain index l where il: "il = (index, l)" by (cases il)
  from Cons.prems(2) il obtain e' where adv: "advance total_length end_percent l = Inr e'"
    by (cases "advance total_length end_percent l") (simp_all add: Let_def)
  from Cons.prems(2) il adv have idx: "index < length to_animate"
    by (cases "index < length to_animate") (simp_all add: Let_def)
  from Cons.prems(2) il adv idx obtain st1 where
    p: "animate_path float_repr (to_animate ! index) end_percent e' l l (PyInt 0) anim_id st = Inr st1"
    and rest: "animate_loop float_repr to_animate anim_id total_length e' ils st1 = Inr st'"
    by (cases "animate_path float_repr (to_animate ! index) end_percent e' l l (PyInt 0) anim_id st")
       (simp_all add: Let_def)
  note r = animate_path_rules[OF Cons.prems(1) p]
  from r(1) obtain rule where rule: "style_rules (document st1) = style_rules (document st) @ [rule]"
    by blast
  from Cons.IH[OF r(2) rest] obtain rules where
    rules: "style_rules (document st') = style_rules (document st1) @ rules"
      "length rules = length ils"
    and wf': "distinct (map nid (iter_elems (document st')))" and f: "files st' = files st1"
    by blast
  from rule rules have "style_rules (document st') = style_rules (document st) @ (rule # rules) \<and>
      length (rule # rules) = length (il # ils)" by simp
  then have "\<exists>rules. style_rules (document st') = style_rules (document st) @ rules \<and>
      length rules = length (il # ils)" by (rule exI)
  with wf' f r(4) show ?case by simp
qed

lemma add_animation_rules:
  assumes wf: "distinct (map nid (iter_elems (document st)))"
    and ok: "add_animation opts csplength_path float_repr to_animate anim_id st = Inr st'"
  shows "\<exists>rules. style_rules (document st') = style_rules (document st) @ rules"
    and "distinct (map nid (iter_elems (document st')))"
    and "files st' = files st"
proof -
  let ?lengths = "map (get_animatable_length csplength_path)
                    (filter (\<lambda>element. tag element = addNS ''path'' ''svg'') to_animate)"
  have "(\<exists>rules. style_rules (document st') = style_rules (document st) @ rules) \<and>
        distinct (map nid (iter_elems (document st'))) \<and> files st' = files st"
  proof (cases "?lengths = []")
    case True
    with ok have "st' = errormsg ''Please convert all objects to paths before running this extension.'' st"
      by (simp add: add_animation_def)
    with wf show ?thesis by (simp add: errormsg_def)
  next
    case False
    with ok obtain st1 where
      l: "animate_loop float_repr to_animate anim_id (py_sum ?lengths) (PyInt 0)
            (enumerate 0 ?lengths) st = Inr st1" and
      a: "add_or_replace_style_tag anim_id (animation_style_content anim_id (animation_style opts)) st1
            = Inr st'"
      by (auto simp: add_animation_def Let_def split: sum.splits)
    from animate_loop_rules[OF wf l] obtain rules where
      rules: "style_rules (document st1) = style_rules (document st) @ rules"
      and wf1: "distinct (map nid (iter_elems (document st1)))" and f1: "files st1 = files st"
      by blast
    note r = add_or_replace_rules[OF wf1 a]
    from r(1) rules have "style_rules (document st') = style_rules (document st) @
        (rules @ [(Some anim_id, Some (animation_style_content anim_id (animation_style opts)))])"
      by simp
    then have "\<exists>rules. style_rules (document st') = style_rules (document st) @ rules" by (rule exI)
    with r(2) r(4) f1 show ?thesis by simp
  qed
  then show "\<exists>rules. style_rules (document st') = style_rules (document st) @ rules"
    and "distinct (map nid (iter_elems (document st')))"
    and "files st' = files st" by blast+
qed

lemma set_visibility_distinct:
  "set_visibility layer_list export_item st = Inr st1 \<Longrightarrow>
   distinct (map nid (iter_elems (document st))) \<Longrightarrow>
   distinct (map nid (iter_elems (document st1)))"
proof (induction layer_list arbitrary: st)
  case Nil
  then show ?case by simp
next
  case (Cons l ls)
  from Cons.prems(1) obtain layer_tag where t: "getElementById (id' l) (document st) = Some layer_tag"
    by (cases "getElementById (id' l) (document st)") simp_all
  let ?st = "st\<lparr>document :=
               update_elem (nid layer_tag)
                 (set_attr ''style''
                    (if id' l \<in> visible_layers export_item
                     then ''display:inline'' else ''display:none''))
                 (document st)\<rparr>"
  from Cons.prems(1) t have s: "set_visibility ls export_item ?st = Inr st1" by simp
  from Cons.prems(2) have "distinct (map nid (iter_elems (document ?st)))"
    by (simp add: nids_update_set_attr)
  from Cons.IH[OF s this] show ?case .
qed

text \<open>One step of the run.\<close>

lemma effect_step_rules:
  assumes wf: "distinct (map nid (iter_elems (document st)))"
    and ok: "effect_step opts set_order csplength_path float_repr layer_list idx export_item st = Inr st'"
  shows "\<exists>rules. style_rules (document st') = style_rules (document st) @ rules"
    and "distinct (map nid (iter_elems (document st')))"
    and "files st' = files st @
           [(output_dir opts @ ''/'' @ file_name export_item @ ''.svg'',
             resolve_visibility (visible_layers export_item) (document st'))]"
proof -
  from ok obtain st1 where v: "set_visibility layer_list export_item st = Inr st1"
    by (cases "set_visibility layer_list export_item st") (simp_all add: effect_step_def)
  from ok v obtain tid where t: "top_layer_id set_order export_item = Inr tid"
    by (cases "top_layer_id set_order export_item") (simp_all add: effect_step_def)
  from ok v t obtain top_layer_tag where g: "getElementById tid (document st1) = Some top_layer_tag"
    by (cases "getElementById tid (document st1)") (simp_all add: effect_step_def)
  from ok v t g obtain st2 where
    a: "add_animation opts csplength_path float_repr (get_all_paths_in_layer top_layer_tag)
          (''anim_'' @ str_nat idx) st1 = Inr st2"
    by (cases "add_animation opts csplength_path float_repr (get_all_paths_in_layer top_layer_tag)
          (''anim_'' @ str_nat idx) st1") (simp_all add: effect_step_def)
  from ok v t g a have e: "export_to_svg export_item (output_dir opts) st2 = Inr st'"
    by (simp add: effect_step_def)
  from set_visibility_rules[OF v] have
    k: "style_rules (document st1) = style_rules (document st)" "files st1 = files st"
    by simp_all
  note wf1 = set_visibility_distinct[OF v wf]
  note r = add_animation_rules[OF wf1 a]
  from export_to_svg_resolve[OF r(2) e] have
    s: "st' = st2\<lparr>files := files st2 @
                  [(output_dir opts @ ''/'' @ file_name export_item @ ''.svg'',
                    resolve_visibility (visible_layers export_item) (document st2))]\<rparr>" .
  from s have d: "document st' = document st2" by simp
  from r(1) k(1) d show "\<exists>rules. style_rules (document st') = style_rules (document st) @ rules"
    by simp
  from r(2) d show "distinct (map nid (iter_elems (document st')))" by simp
  from s have "files st' = files st2 @
                  [(output_dir opts @ ''/'' @ file_name export_item @ ''.svg'',
                    resolve_visibility (visible_layers export_item) (document st2))]" by simp
  with r(3) k(2) d show "files st' = files st @
           [(output_dir opts @ ''/'' @ file_name export_item @ ''.svg'',
             resolve_visibility (visible_layers export_item) (document st'))]" by simp
qed

text \<open>
  The states a run passes through: \<open>sts ! k\<close> is the state after the first \<open>k + 1\<close>
  steps, the file of step \<open>k\<close> is the copy of the live document of that state, and each
  live document carries the rules of the one before it, and then its own.
\<close>

lemma effect_loop_trace:
  "distinct (map nid (iter_elems (document st))) \<Longrightarrow>
   effect_loop opts set_order csplength_path float_repr layer_list steps st = Inr st' \<Longrightarrow>
   \<exists>sts. length sts = length steps \<and>
     (\<forall>k<length steps.
        effect_loop opts set_order csplength_path float_repr layer_list (take (Suc k) steps) st =
          Inr (sts ! k)) \<and>
     files st' = files st @
       map (\<lambda>((idx, export_item), s).
              (output_dir opts @ ''/'' @ file_name export_item @ ''.svg'',
               resolve_visibility (visible_layers export_item) (document s)))
           (zip steps sts) \<and>
     (\<forall>k<length sts. \<exists>rules.
        style_rules (document (sts ! k)) = style_rules (document ((st # sts) ! k)) @ rules) \<and>
     document st' = document (last (st # sts))"
proof (induction steps arbitrary: st)
  case Nil
  then show ?case by simp
next
  case (Cons step rest)
  obtain idx export_item where step: "step = (idx, export_item)" by (cases step)
  from Cons.prems(2) step obtain st1 where
    s1: "effect_step opts set_order csplength_path float_repr layer_list idx export_item st = Inr st1"
    and r1: "effect_loop opts set_order csplength_path float_repr layer_list rest st1 = Inr st'"
    by (cases "effect_step opts set_order csplength_path float_repr layer_list idx export_item st")
       simp_all
  note r = effect_step_rules[OF Cons.prems(1) s1]
  from Cons.IH[OF r(2) r1] obtain sts where
    len: "length sts = length rest" and
    pre: "\<forall>k<length rest.
        effect_loop opts set_order csplength_path float_repr layer_list (take (Suc k) rest) st1 =
          Inr (sts ! k)" and
    fs: "files st' = files st1 @
       map (\<lambda>((idx, export_item), s).
              (output_dir opts @ ''/'' @ file_name export_item @ ''.svg'',
               resolve_visibility (visible_layers export_item) (document s)))
           (zip rest sts)" and
    acc: "\<forall>k<length sts. \<exists>rules.
        style_rules (document (sts ! k)) = style_rules (document ((st1 # sts) ! k)) @ rules" and
    fin: "document st' = document (last (st1 # sts))"
    by blast
  let ?sts = "st1 # sts"
  have a: "length ?sts = length (step # rest)" using len by simp
  have b: "\<forall>k<length (step # rest).
        effect_loop opts set_order csplength_path float_repr layer_list (take (Suc k) (step # rest)) st =
          Inr (?sts ! k)"
  proof (intro allI impI)
    fix k assume k: "k < length (step # rest)"
    show "effect_loop opts set_order csplength_path float_repr layer_list (take (Suc k) (step # rest)) st =
          Inr (?sts ! k)"
    proof (cases k)
      case 0
      with s1 step show ?thesis by simp
    next
      case (Suc j)
      with k have "j < length rest" by simp
      with pre have "effect_loop opts set_order csplength_path float_repr layer_list
          (take (Suc j) rest) st1 = Inr (sts ! j)" by blast
      with Suc s1 step show ?thesis by simp
    qed
  qed
  have c: "files st' = files st @
       map (\<lambda>((idx, export_item), s).
              (output_dir opts @ ''/'' @ file_name export_item @ ''.svg'',
               resolve_visibility (visible_layers export_item) (document s)))
           (zip (step # rest) ?sts)"
    using fs r(3) step by simp
  have d: "\<forall>k<length ?sts. \<exists>rules.
        style_rules (document (?sts ! k)) = style_rules (document ((st # ?sts) ! k)) @ rules"
  proof (intro allI impI)
    fix k assume k: "k < length ?sts"
    show "\<exists>rules. style_rules (document (?sts ! k)) =
            style_rules (document ((st # ?sts) ! k)) @ rules"
    proof (cases k)
      case 0
      with r(1) show ?thesis by simp
    next
      case (Suc j)
      with k have "j < length sts" by simp
      with acc have "\<exists>rules. style_rules (document (sts ! j)) =
          style_rules (document ((st1 # sts) ! j)) @ rules" by blast
      with Suc show ?thesis by simp
    qed
  qed
  have e: "document st' = document (last (st # ?sts))" using fin by simp
  show ?case
    by (rule exI[where x="?sts"]) (intro conjI a b c d e)
qed

text \<open>
  Claim C9, as the code has it. (A document is a tree of distinct nodes.) A rule is
  injected into the live document \<open>self.document\<close>: a call of
  \<open>add_or_replace_style_tag\<close> that returns has put its rule after the rules the live
  document had. \<open>export_to_svg\<close> copies the live document, rules included; what it
  writes is that document with the display of every layer set and nothing else changed,
  and the live document stays as it is, rules included. So over a run of any number of
  steps the file of a step is the copy of the live document as the step left it, and
  the live document of a step carries the rules of the step before it, followed by its
  own: no step starts from a document without the rules of the earlier ones.
\<close>

theorem rules_go_to_live_document:
  assumes "distinct (map nid (iter_elems (document st)))"
  shows "(add_or_replace_style_tag tag_id content st = Inr st1 \<longrightarrow>
            style_rules (document st1) = style_rules (document st) @ [(Some tag_id, Some content)] \<and>
            distinct (map nid (iter_elems (document st1))) \<and>
            messages st1 = messages st \<and> files st1 = files st) \<and>
         (export_to_svg export_item out_dir st = Inr st2 \<longrightarrow>
            st2 = st\<lparr>files := files st @
                     [(out_dir @ ''/'' @ file_name export_item @ ''.svg'',
                       resolve_visibility (visible_layers export_item) (document st))]\<rparr> \<and>
            style_rules (resolve_visibility (visible_layers export_item) (document st)) =
              style_rules (document st)) \<and>
         (effect_loop opts set_order csplength_path float_repr layer_list steps st = Inr st' \<longrightarrow>
            (\<exists>sts. length sts = length steps \<and>
               (\<forall>k<length steps.
                  effect_loop opts set_order csplength_path float_repr layer_list
                    (take (Suc k) steps) st = Inr (sts ! k)) \<and>
               files st' = files st @
                 map (\<lambda>((idx, export_item), s).
                        (output_dir opts @ ''/'' @ file_name export_item @ ''.svg'',
                         resolve_visibility (visible_layers export_item) (document s)))
                     (zip steps sts) \<and>
               (\<forall>k<length sts. \<exists>rules.
                  style_rules (document (sts ! k)) =
                    style_rules (document ((st # sts) ! k)) @ rules) \<and>
               document st' = document (last (st # sts))))"
proof (intro conjI impI)
  assume a: "add_or_replace_style_tag tag_id content st = Inr st1"
  note r = add_or_replace_rules[OF assms a]
  show "style_rules (document st1) = style_rules (document st) @ [(Some tag_id, Some content)]"
    by (rule r(1))
  show "distinct (map nid (iter_elems (document st1)))" by (rule r(2))
  show "messages st1 = messages st" by (rule r(3))
  show "files st1 = files st" by (rule r(4))
next
  assume e: "export_to_svg export_item out_dir st = Inr st2"
  show "st2 = st\<lparr>files := files st @
                     [(out_dir @ ''/'' @ file_name export_item @ ''.svg'',
                       resolve_visibility (visible_layers export_item) (document st))]\<rparr>"
    by (rule export_to_svg_resolve[OF assms e])
next
  show "style_rules (resolve_visibility (visible_layers export_item) (document st)) =
          style_rules (document st)"
    by (rule style_rules_resolve_visibility)
next
  assume l: "effect_loop opts set_order csplength_path float_repr layer_list steps st = Inr st'"
  show "\<exists>sts. length sts = length steps \<and>
               (\<forall>k<length steps.
                  effect_loop opts set_order csplength_path float_repr layer_list
                    (take (Suc k) steps) st = Inr (sts ! k)) \<and>
               files st' = files st @
                 map (\<lambda>((idx, export_item), s).
                        (output_dir opts @ ''/'' @ file_name export_item @ ''.svg'',
                         resolve_visibility (visible_layers export_item) (document s)))
                     (zip steps sts) \<and>
               (\<forall>k<length sts. \<exists>rules.
                  style_rules (document (sts ! k)) =
                    style_rules (document ((st # sts) ! k)) @ rules) \<and>
               document st' = document (last (st # sts))"
    by (rule effect_loop_trace[OF assms l])
qed

theorem rules_go_to_live_document_witness:
  "\<exists>st1 st2 st'.
     (add_or_replace_style_tag ''anim_0'' ''c'' \<lparr>document =
         Element 0 (addNS ''svg'' ''svg'') [] None
           [Element 1 (addNS ''g'' ''svg'')
              [(''id'', ''layer1''), (addNS ''groupmode'' ''inkscape'', ''layer''),
               (addNS ''label'' ''inkscape'', ''BG'')] None
              [Element 2 (addNS ''path'' ''svg'') [(''id'', ''p1'')] None []],
            Element 3 (addNS ''g'' ''svg'')
              [(''id'', ''layer2''), (addNS ''groupmode'' ''inkscape'', ''layer''),
               (addNS ''label'' ''inkscape'', ''Sky'')] None
              [Element 4 (addNS ''path'' ''svg'') [(''id'', ''p2'')] None []]],
       messages = [], files = []\<rparr> = Inr st1) \<and>
     (export_to_svg \<lparr>visible_layers = {''layer2''}, file_name = ''001_sky''\<rparr> ''out'' \<lparr>document =
         Element 0 (addNS ''svg'' ''svg'') [] None
           [Element 1 (addNS ''g'' ''svg'')
              [(''id'', ''layer1''), (addNS ''groupmode'' ''inkscape'', ''layer''),
               (addNS ''label'' ''inkscape'', ''BG'')] None
              [Element 2 (addNS ''path'' ''svg'') [(''id'', ''p1'')] None []],
            Element 3 (addNS ''g'' ''svg'')
              [(''id'', ''layer2''), (addNS ''groupmode'' ''inkscape'', ''layer''),
               (addNS ''label'' ''inkscape'', ''Sky'')] None
              [Element 4 (addNS ''path'' ''svg'') [(''id'', ''p2'')] None []]],
       messages = [], files = []\<rparr> = Inr st2) \<and>
     (effect_loop \<lparr>output_dir = ''out'', prefix = [], enumerate_opt = True, include_background = True,
       animation_style = ''ease''\<rparr> (\<lambda>S. filter (\<lambda>x. x \<in> S) [''layer2'', ''layer1'']) (\<lambda>e. ([[PyFloat 1]], PyFloat 1)) (\<lambda>r. ''1.0'') [\<lparr>id' = ''layer2'', label = ''sky''\<rparr>, \<lparr>id' = ''layer1'', label = ''bg''\<rparr>] [(0::nat, \<lparr>visible_layers = {''layer2''}, file_name = ''001_sky''\<rparr>), (1::nat, \<lparr>visible_layers = {''layer2'', ''layer1''}, file_name = ''002_bg''\<rparr>)] \<lparr>document =
         Element 0 (addNS ''svg'' ''svg'') [] None
           [Element 1 (addNS ''g'' ''svg'')
              [(''id'', ''layer1''), (addNS ''groupmode'' ''inkscape'', ''layer''),
               (addNS ''label'' ''inkscape'', ''BG'')] None
              [Element 2 (addNS ''path'' ''svg'') [(''id'', ''p1'')] None []],
            Element 3 (addNS ''g'' ''svg'')
              [(''id'', ''layer2''), (addNS ''groupmode'' ''inkscape'', ''layer''),
               (addNS ''label'' ''inkscape'', ''Sky'')] None
              [Element 4 (addNS ''path'' ''svg'') [(''id'', ''p2'')] None []]],
       messages = [], files = []\<rparr> = Inr st') \<and>
     (style_rules (document st1) = style_rules (document \<lparr>document =
         Element 0 (addNS ''svg'' ''svg'') [] None
           [Element 1 (addNS ''g'' ''svg'')
              [(''id'', ''layer1''), (addNS ''groupmode'' ''inkscape'', ''layer''),
               (addNS ''label'' ''inkscape'', ''BG'')] None
              [Element 2 (addNS ''path'' ''svg'') [(''id'', ''p1'')] None []],
            Element 3 (addNS ''g'' ''svg'')
              [(''id'', ''layer2''), (addNS ''groupmode'' ''inkscape'', ''layer''),
               (addNS ''label'' ''inkscape'', ''Sky'')] None
              [Element 4 (addNS ''path'' ''svg'') [(''id'', ''p2'')] None []]],
       messages = [], files = []\<rparr>) @ [(Some ''anim_0'', Some ''c'')] \<and>
     distinct (map nid (iter_elems (document st1))) \<and>
     messages st1 = messages \<lparr>document =
         Element 0 (addNS ''svg'' ''svg'') [] None
           [Element 1 (addNS ''g'' ''svg'')
              [(''id'', ''layer1''), (addNS ''groupmode'' ''inkscape'', ''layer''),
               (addNS ''label'' ''inkscape'', ''BG'')] None
              [Element 2 (addNS ''path'' ''svg'') [(''id'', ''p1'')] None []],
            Element 3 (addNS ''g'' ''svg'')
              [(''id'', ''layer2''), (addNS ''groupmode'' ''inkscape'', ''layer''),
               (addNS ''label'' ''inkscape'', ''Sky'')] None
              [Element 4 (addNS ''path'' ''svg'') [(''id'', ''p2'')] None []]],
       messages = [], files = []\<rparr> \<and> files st1 = files \<lparr>document =
         Element 0 (addNS ''svg'' ''svg'') [] None
           [Element 1 (addNS ''g'' ''svg'')
              [(''id'', ''layer1''), (addNS ''groupmode'' ''inkscape'', ''layer''),
               (addNS ''label'' ''inkscape'', ''BG'')] None
              [Element 2 (addNS ''path'' ''svg'') [(''id'', ''p1'')] None []],
            Element 3 (addNS ''g'' ''svg'')
              [(''id'', ''layer2''), (addNS ''groupmode'' ''inkscape'', ''layer''),
               (addNS ''label'' ''inkscape'', ''Sky'')] None
              [Element 4 (addNS ''path'' ''svg'') [(''id'', ''p2'')] None []]],
       messages = [], files = []\<rparr>) \<and>
     (st2 = \<lparr>document =
         Element 0 (addNS ''svg'' ''svg'') [] None
           [Element 1 (addNS ''g'' ''svg'')
              [(''id'', ''layer1''), (addNS ''groupmode'' ''inkscape'', ''layer''),
               (addNS ''label'' ''inkscape'', ''BG'')] None
              [Element 2 (addNS ''path'' ''svg'') [(''id'', ''p1'')] None []],
            Element 3 (addNS ''g'' ''svg'')
              [(''id'', ''layer2''), (addNS ''groupmode'' ''inkscape'', ''layer''),
               (addNS ''label'' ''inkscape'', ''Sky'')] None
              [Element 4 (addNS ''path'' ''svg'') [(''id'', ''p2'')] None []]],
       messages = [], files = []\<rparr>\<lparr>files := files \<lparr>document =
         Element 0 (addNS ''svg'' ''svg'') [] None
           [Element 1 (addNS ''g'' ''svg'')
              [(''id'', ''layer1''), (addNS ''groupmode'' ''inkscape'', ''layer''),
               (addNS ''label'' ''inkscape'', ''BG'')] None
              [Element 2 (addNS ''path'' ''svg'') [(''id'', ''p1'')] None []],
            Element 3 (addNS ''g'' ''svg'')
              [(''id'', ''layer2''), (addNS ''groupmode'' ''inkscape'', ''layer''),
               (addNS ''label'' ''inkscape'', ''Sky'')] None
              [Element 4 (addNS ''path'' ''svg'') [(''id'', ''p2'')] None []]],
       messages = [], files = []\<rparr> @
              [(''out'' @ ''/'' @ file_name \<lparr>visible_layers = {''layer2''}, file_name = ''001_sky''\<rparr> @ ''.svg'',
                resolve_visibility (visible_layers \<lparr>visible_layers = {''layer2''}, file_name = ''001_sky''\<rparr>) (document \<lparr>document =
         Element 0 (addNS ''svg'' ''svg'') [] None
           [Element 1 (addNS ''g'' ''svg'')
              [(''id'', ''layer1''), (addNS ''groupmode'' ''inkscape'', ''layer''),
               (addNS ''label'' ''inkscape'', ''BG'')] None
              [Element 2 (addNS ''path'' ''svg'') [(''id'', ''p1'')] None []],
            Element 3 (addNS ''g'' ''svg'')
              [(''id'', ''layer2''), (addNS ''groupmode'' ''inkscape'', ''layer''),
               (addNS ''label'' ''inkscape'', ''Sky'')] None
              [Element 4 (addNS ''path'' ''svg'') [(''id'', ''p2'')] None []]],
       messages = [], files = []\<rparr>))]\<rparr> \<and>
     style_rules (resolve_visibility (visible_layers \<lparr>visible_layers = {''layer2''}, file_name = ''001_sky''\<rparr>) (document \<lparr>document =
         Element 0 (addNS ''svg'' ''svg'') [] None
           [Element 1 (addNS ''g'' ''svg'')
              [(''id'', ''layer1''), (addNS ''groupmode'' ''inkscape'', ''layer''),
               (addNS ''label'' ''inkscape'', ''BG'')] None
              [Element 2 (addNS ''path'' ''svg'') [(''id'', ''p1'')] None []],
            Element 3 (addNS ''g'' ''svg'')
              [(''id'', ''layer2''), (addNS ''groupmode'' ''inkscape'', ''layer''),
               (addNS ''label'' ''inkscape'', ''Sky'')] None
              [Element 4 (addNS ''path'' ''svg'') [(''id'', ''p2'')] None []]],
       messages = [], files = []\<rparr>)) =
       style_rules (document \<lparr>document =
         Element 0 (addNS ''svg'' ''svg'') [] None
           [Element 1 (addNS ''g'' ''svg'')
              [(''id'', ''layer1''), (addNS ''groupmode'' ''inkscape'', ''layer''),
               (addNS ''label'' ''inkscape'', ''BG'')] None
              [Element 2 (addNS ''path'' ''svg'') [(''id'', ''p1'')] None []],
            Element 3 (addNS ''g'' ''svg'')
              [(''id'', ''layer2''), (addNS ''groupmode'' ''inkscape'', ''layer''),
               (addNS ''label'' ''inkscape'', ''Sky'')] None
              [Element 4 (addNS ''path'' ''svg'') [(''id'', ''p2'')] None []]],
       messages = [], files = []\<rparr>)) \<and>
     (\<exists>sts. length sts = length [(0::nat, \<lparr>visible_layers = {''layer2''}, file_name = ''001_sky''\<rparr>), (1::nat, \<lparr>visible_layers = {''layer2'', ''layer1''}, file_name = ''002_bg''\<rparr>)] \<and>
        (\<forall>k<length [(0::nat, \<lparr>visible_layers = {''layer2''}, file_name = ''001_sky''\<rparr>), (1::nat, \<lparr>visible_layers = {''layer2'', ''layer1''}, file_name = ''002_bg''\<rparr>)].
           effect_loop \<lparr>output_dir = ''out'', prefix = [], enumerate_opt = True, include_background = True,
       animation_style = ''ease''\<rparr> (\<lambda>S. filter (\<lambda>x. x \<in> S) [''layer2'', ''layer1'']) (\<lambda>e. ([[PyFloat 1]], PyFloat 1)) (\<lambda>r. ''1.0'') [\<lparr>id' = ''layer2'', label = ''sky''\<rparr>, \<lparr>id' = ''layer1'', label = ''bg''\<rparr>] (take (Suc k) [(0::nat, \<lparr>visible_layers = {''layer2''}, file_name = ''001_sky''\<rparr>), (1::nat, \<lparr>visible_layers = {''layer2'', ''layer1''}, file_name = ''002_bg''\<rparr>)]) \<lparr>document =
         Element 0 (addNS ''svg'' ''svg'') [] None
           [Element 1 (addNS ''g'' ''svg'')
              [(''id'', ''layer1''), (addNS ''groupmode'' ''inkscape'', ''layer''),
               (addNS ''label'' ''inkscape'', ''BG'')] None
              [Element 2 (addNS ''path'' ''svg'') [(''id'', ''p1'')] None []],
            Element 3 (addNS ''g'' ''svg'')
              [(''id'', ''layer2''), (addNS ''groupmode'' ''inkscape'', ''layer''),
               (addNS ''label'' ''inkscape'', ''Sky'')] None
              [Element 4 (addNS ''path'' ''svg'') [(''id'', ''p2'')] None []]],
       messages = [], files = []\<rparr> = Inr (sts ! k)) \<and>
        files st' = files \<lparr>document =
         Element 0 (addNS ''svg'' ''svg'') [] None
           [Element 1 (addNS ''g'' ''svg'')
              [(''id'', ''layer1''), (addNS ''groupmode'' ''inkscape'', ''layer''),
               (addNS ''label'' ''inkscape'', ''BG'')] None
              [Element 2 (addNS ''path'' ''svg'') [(''id'', ''p1'')] None []],
            Element 3 (addNS ''g'' ''svg'')
              [(''id'', ''layer2''), (addNS ''groupmode'' ''inkscape'', ''layer''),
               (addNS ''label'' ''inkscape'', ''Sky'')] None
              [Element 4 (addNS ''path'' ''svg'') [(''id'', ''p2'')] None []]],
       messages = [], files = []\<rparr> @
          map (\<lambda>((idx, export_item), s).
                 (output_dir \<lparr>output_dir = ''out'', prefix = [], enumerate_opt = True, include_background = True,
       animation_style = ''ease''\<rparr> @ ''/'' @ file_name export_item @ ''.svg'',
                  resolve_visibility (visible_layers export_item) (document s)))
              (zip [(0::nat, \<lparr>visible_layers = {''layer2''}, file_name = ''001_sky''\<rparr>), (1::nat, \<lparr>visible_layers = {''layer2'', ''layer1''}, file_name = ''002_bg''\<rparr>)] sts) \<and>
        (\<forall>k<length sts. \<exists>rules.
           style_rules (document (sts ! k)) =
             style_rules (document ((\<lparr>document =
         Element 0 (addNS ''svg'' ''svg'') [] None
           [Element 1 (addNS ''g'' ''svg'')
              [(''id'', ''layer1''), (addNS ''groupmode'' ''inkscape'', ''layer''),
               (addNS ''label'' ''inkscape'', ''BG'')] None
              [Element 2 (addNS ''path'' ''svg'') [(''id'', ''p1'')] None []],
            Element 3 (addNS ''g'' ''svg'')
              [(''id'', ''layer2''), (addNS ''groupmode'' ''inkscape'', ''layer''),
               (addNS ''label'' ''inkscape'', ''Sky'')] None
              [Element 4 (addNS ''path'' ''svg'') [(''id'', ''p2'')] None []]],
       messages = [], files = []\<rparr> # sts) ! k)) @ rules) \<and>
        document st' = document (last (\<lparr>document =
         Element 0 (addNS ''svg'' ''svg'') [] None
           [Element 1 (addNS ''g'' ''svg'')
              [(''id'', ''layer1''), (addNS ''groupmode'' ''inkscape'', ''layer''),
               (addNS ''label'' ''inkscape'', ''BG'')] None
              [Element 2 (addNS ''path'' ''svg'') [(''id'', ''p1'')] None []],
            Element 3 (addNS ''g'' ''svg'')
              [(''id'', ''layer2''), (addNS ''groupmode'' ''inkscape'', ''layer''),
               (addNS ''label'' ''inkscape'', ''Sky'')] None
              [Element 4 (addNS ''path'' ''svg'') [(''id'', ''p2'')] None []]],
       messages = [], files = []\<rparr> # sts)))"
proof -
  let ?o = "\<lparr>output_dir = ''out'', prefix = [], enumerate_opt = True, include_background = True,
       animation_style = ''ease''\<rparr>"
  let ?ord = "(\<lambda>S. filter (\<lambda>x. x \<in> S) [''layer2'', ''layer1''])"
  let ?cs = "(\<lambda>e. ([[PyFloat 1]], PyFloat 1))"
  let ?fr = "(\<lambda>r. ''1.0'')"
  let ?ll = "[\<lparr>id' = ''layer2'', label = ''sky''\<rparr>, \<lparr>id' = ''layer1'', label = ''bg''\<rparr>]"
  let ?e1 = "\<lparr>visible_layers = {''layer2''}, file_name = ''001_sky''\<rparr>"
  let ?steps = "[(0::nat, \<lparr>visible_layers = {''layer2''}, file_name = ''001_sky''\<rparr>), (1::nat, \<lparr>visible_layers = {''layer2'', ''layer1''}, file_name = ''002_bg''\<rparr>)]"
  let ?st = "\<lparr>document =
         Element 0 (addNS ''svg'' ''svg'') [] None
           [Element 1 (addNS ''g'' ''svg'')
              [(''id'', ''layer1''), (addNS ''groupmode'' ''inkscape'', ''layer''),
               (addNS ''label'' ''inkscape'', ''BG'')] None
              [Element 2 (addNS ''path'' ''svg'') [(''id'', ''p1'')] None []],
            Element 3 (addNS ''g'' ''svg'')
              [(''id'', ''layer2''), (addNS ''groupmode'' ''inkscape'', ''layer''),
               (addNS ''label'' ''inkscape'', ''Sky'')] None
              [Element 4 (addNS ''path'' ''svg'') [(''id'', ''p2'')] None []]],
       messages = [], files = []\<rparr>"
  have wf: "distinct (map nid (iter_elems (document ?st)))"
    by simp
  have "case add_or_replace_style_tag ''anim_0'' ''c'' ?st of Inl e \<Rightarrow> False | Inr s \<Rightarrow> True"
    by code_simp
  then obtain st1 where a: "add_or_replace_style_tag ''anim_0'' ''c'' ?st = Inr st1"
    by (cases "add_or_replace_style_tag ''anim_0'' ''c'' ?st") simp_all
  have "case export_to_svg ?e1 ''out'' ?st of Inl e \<Rightarrow> False | Inr s \<Rightarrow> True"
    by code_simp
  then obtain st2 where e: "export_to_svg ?e1 ''out'' ?st = Inr st2"
    by (cases "export_to_svg ?e1 ''out'' ?st") simp_all
  have "case effect_loop ?o ?ord ?cs ?fr ?ll ?steps ?st of Inl e \<Rightarrow> False | Inr s \<Rightarrow> True"
    by code_simp
  then obtain st' where l: "effect_loop ?o ?ord ?cs ?fr ?ll ?steps ?st = Inr st'"
    by (cases "effect_loop ?o ?ord ?cs ?fr ?ll ?steps ?st") simp_all
  note t = rules_go_to_live_document[where st = "?st" and tag_id = "''anim_0''"
      and content = "''c''" and ?st1.0 = st1 and export_item = "?e1" and out_dir = "''out''"
      and ?st2.0 = st2 and opts = "?o" and set_order = "?ord" and csplength_path = "?cs"
      and float_repr = "?fr" and layer_list = "?ll" and steps = "?steps" and st' = st', OF wf]
  note c1 = mp[OF conjunct1[OF t] a]
  note c2 = mp[OF conjunct1[OF conjunct2[OF t]] e]
  note c3 = mp[OF conjunct2[OF conjunct2[OF t]] l]
  show ?thesis
    by (rule exI[where x = st1], rule exI[where x = st2], rule exI[where x = st'])
       (rule conjI[OF a conjI[OF e conjI[OF l conjI[OF c1 conjI[OF c2 c3]]]]])
qed

text \<open>
  A run over two layers with one path each: the second file holds the two rules injected
  in the first step besides its own, so the second copy was not made from a pristine
  document.
\<close>

theorem rules_accumulate_counterexample:
  "(case effect
      \<lparr>output_dir = ''out'', prefix = [], enumerate_opt = True, include_background = True,
       animation_style = ''ease''\<rparr>
      (\<lambda>S. filter (\<lambda>x. x \<in> S) [''layer2'', ''layer1''])
      (\<lambda>e. ([[PyFloat 1]], PyFloat 1)) (\<lambda>r. ''1.0'')
      \<lparr>document =
         Element 0 (addNS ''svg'' ''svg'') [] None
           [Element 1 (addNS ''g'' ''svg'')
              [(''id'', ''layer1''), (addNS ''groupmode'' ''inkscape'', ''layer''),
               (addNS ''label'' ''inkscape'', ''BG'')] None
              [Element 2 (addNS ''path'' ''svg'') [(''id'', ''p1'')] None []],
            Element 3 (addNS ''g'' ''svg'')
              [(''id'', ''layer2''), (addNS ''groupmode'' ''inkscape'', ''layer''),
               (addNS ''label'' ''inkscape'', ''Sky'')] None
              [Element 4 (addNS ''path'' ''svg'') [(''id'', ''p2'')] None []]],
       messages = [], files = []\<rparr> of
      Inl e \<Rightarrow> []
    | Inr st' \<Rightarrow> map (\<lambda>f. (fst f, map fst (style_rules (snd f)))) (files st')) =
   [(''out/001_sky.svg'', [Some ''pathanim_p2'', Some ''anim_0'']),
    (''out/002_bg.svg'',
     [Some ''pathanim_p2'', Some ''anim_0'', Some ''pathanim_p1'', Some ''anim_1''])]"
  by code_simp

end

